theory Spec2Isabelle
  imports Complex_Main "HOL-Library.Log_Nat"
begin

section \<open>Data model\<close>

text \<open>
  The preprocessing code of \<^verbatim>\<open>preprocess.py\<close> works on numpy arrays. A 2-D array is
  modelled by its shape together with its rows; \<open>wf_arr\<close> says that the rows agree with
  the shape. Pixel values of integer dtypes are \<open>int\<close>; the wrap-around of a dtype is
  written out where the code converts (\<^verbatim>\<open>astype(np.uint8)\<close>) or multiplies arrays of
  fixed-width dtypes. A Python float is a real number that double precision represents;
  in the width \<^verbatim>\<open>_resize_to_height\<close> computes and in the linear window of \<^verbatim>\<open>_windowing\<close>
  every operation on floats is followed by the rounding of its floating-point type,
  \<open>float64\<close> or \<open>round_to 24\<close> below. The other float expressions of the code, a division by
  the maximum or by 255 and the comparison with a twentieth of the maximum, are written
  with exact reals.
\<close>

record 'a ndarray =
  nrows :: nat
  ncols :: nat
  rows :: "'a list list"

definition shape :: "'a ndarray \<Rightarrow> nat \<times> nat" where
  "shape a = (nrows a, ncols a)"

definition wf_arr :: "'a ndarray \<Rightarrow> bool" where
  "wf_arr a \<longleftrightarrow> length (rows a) = nrows a \<and> list_all (\<lambda>r. length r = ncols a) (rows a)"

definition map_px :: "('a \<Rightarrow> 'b) \<Rightarrow> 'a ndarray \<Rightarrow> 'b ndarray" where
  "map_px f a = \<lparr>nrows = nrows a, ncols = ncols a, rows = map (map f) (rows a)\<rparr>"

text \<open>
  Exceptions are values. The first six are the Python and OpenCV exceptions the code and
  its decoder can raise; \<open>DegenerateRegion\<close> and \<open>MetadataMismatch\<close> are the error kinds
  named by the specification, which no function below constructs.
\<close>

datatype error =
  ValueError | TypeError | ZeroDivisionError | IndexError | Cv2Error | RuntimeError
  | DegenerateRegion | MetadataMismatch

text \<open>
  The label mask handed through the CBIS-DDSM pipeline is a Python value: the integer the
  accumulator of \<^verbatim>\<open>_combine_masks\<close> starts with, or a 2-D array.
\<close>

datatype labels = PyInt int | NdArray "int ndarray"

section \<open>numpy operations\<close>

text \<open>\<^verbatim>\<open>a.max()\<close>: raises \<^verbatim>\<open>ValueError\<close> on an array without elements.\<close>

definition amax :: "('a::linorder) ndarray \<Rightarrow> error + 'a" where
  "amax a = (case concat (rows a) of [] \<Rightarrow> Inl ValueError | v # vs \<Rightarrow> Inr (fold max vs v))"

text \<open>\<^verbatim>\<open>np.sum(a, axis=0)\<close>: one sum per column.\<close>

definition sum_axis0 :: "int ndarray \<Rightarrow> int list" where
  "sum_axis0 a = map (\<lambda>x. sum_list (map (\<lambda>r. r ! x) (rows a))) [0..<ncols a]"

text \<open>
  \<^verbatim>\<open>np.array_split(v, 2)\<close>: two sections, the first one element longer when the length
  is odd.
\<close>

definition array_split2 :: "'a list \<Rightarrow> 'a list \<times> 'a list" where
  "array_split2 v =
     (let k = length v div 2 + length v mod 2 in (take k v, drop k v))"

text \<open>\<^verbatim>\<open>np.fliplr\<close>: reverses every row; an input of fewer than two dimensions raises.\<close>

definition fliplr :: "'a ndarray \<Rightarrow> 'a ndarray" where
  "fliplr a = a\<lparr>rows := map rev (rows a)\<rparr>"

fun fliplr_labels :: "labels \<Rightarrow> error + labels" where
  "fliplr_labels (PyInt n) = Inl ValueError"
| "fliplr_labels (NdArray m) = Inr (NdArray (fliplr m))"

text \<open>
  \<^verbatim>\<open>a[y1:y2, x1:x2]\<close> with non-negative bounds: Python clips both bounds to the extent
  and yields nothing when the start is not below the stop.
\<close>

definition slice2 :: "'a ndarray \<Rightarrow> nat \<Rightarrow> nat \<Rightarrow> nat \<Rightarrow> nat \<Rightarrow> 'a ndarray" where
  "slice2 a y1 y2 x1 x2 =
     \<lparr>nrows = min y2 (nrows a) - min y1 (nrows a),
      ncols = min x2 (ncols a) - min x1 (ncols a),
      rows = map (\<lambda>r. drop x1 (take x2 r)) (drop y1 (take y2 (rows a)))\<rparr>"

text \<open>
  Conversion of a float to an integer dtype truncates toward zero;
  \<^verbatim>\<open>astype(np.uint8)\<close> keeps the low eight bits of the truncated value.
\<close>

definition trunc :: "real \<Rightarrow> int" where
  "trunc v = (if 0 \<le> v then \<lfloor>v\<rfloor> else \<lceil>v\<rceil>)"

definition astype_uint8 :: "real \<Rightarrow> int" where
  "astype_uint8 v = trunc v mod 256"

text \<open>
  Rounding to a binary floating-point format with a significand of \<open>p\<close> bits, to nearest
  with ties to even, as IEEE 754 prescribes for the result of every arithmetic operation:
  \<open>ilog2 x\<close> is the exponent of a positive \<open>x\<close>, the integer \<open>e\<close> with
  \<open>2 powi e \<le> x < 2 powi (e + 1)\<close>, and \<open>x\<close> is rounded to a multiple of
  \<open>2 powi (e - (p - 1))\<close>. The exponent is unbounded: overflow to infinity and the
  subnormal numbers, which no image size comes near, are left out. Double precision has
  53 bits. The true division of Python, \<^verbatim>\<open>a / b\<close>, is \<open>float64 (a / b)\<close> for two integers
  and for two floats; an integer that meets a float is converted with \<open>float64\<close> first.
\<close>

definition ilog2 :: "real \<Rightarrow> int" where
  "ilog2 x = (if 1 \<le> x then bitlen \<lfloor>x\<rfloor> - 1 else - bitlen (\<lceil>1 / x\<rceil> - 1))"

definition round_half_even :: "real \<Rightarrow> int" where
  "round_half_even q =
     (let f = \<lfloor>q\<rfloor>; d = q - of_int f
      in if d < 1 / 2 then f else if 1 / 2 < d then f + 1 else if even f then f else f + 1)"

definition round_to_pos :: "nat \<Rightarrow> real \<Rightarrow> real" where
  "round_to_pos p x =
     (let u = 2 powi (ilog2 x - (int p - 1)) in of_int (round_half_even (x / u)) * u)"

definition round_to :: "nat \<Rightarrow> real \<Rightarrow> real" where
  "round_to p x =
     (if x = 0 then 0 else if 0 < x then round_to_pos p x else - round_to_pos p (- x))"

definition float64 :: "real \<Rightarrow> real" where
  "float64 = round_to 53"

text \<open>Sequencing of steps that may raise: the first exception ends the computation.\<close>

definition bind_err :: "error + 'a \<Rightarrow> ('a \<Rightarrow> error + 'b) \<Rightarrow> error + 'b" where
  "bind_err m f = (case m of Inl e \<Rightarrow> Inl e | Inr v \<Rightarrow> f v)"

section \<open>The OpenCV interface\<close>

text \<open>
  OpenCV is a library outside the repository. The functions the code calls are taken as
  parameters, collected in one record:
  \<^item> \<open>findContours\<close>: \<^verbatim>\<open>cv2.findContours(bin_img, RETR_EXTERNAL, CHAIN_APPROX_NONE)\<close> on an
    8-bit image, the list of contours, each a list of points \<open>(x, y)\<close>;
  \<^item> \<open>contourArea\<close>: \<^verbatim>\<open>cv2.contourArea\<close>;
  \<^item> \<open>filled c y x\<close>: whether \<^verbatim>\<open>cv2.drawContours(mask, [c], -1, 255, cv2.FILLED)\<close> paints the
    pixel in row \<open>y\<close> and column \<open>x\<close>;
  \<^item> \<open>resize_px\<close>: the value \<^verbatim>\<open>cv2.resize\<close> computes for one pixel of the destination, for
    the given interpolation method, source and destination size \<open>(width, height)\<close>;
  \<^item> \<open>equalizeHist\<close>: \<^verbatim>\<open>cv2.equalizeHist\<close>.
  What is fixed here is what the code relies on: the shape of a resized array, the
  errors \<^verbatim>\<open>cv2.resize\<close> raises on an empty source or an empty destination size, and the
  error \<^verbatim>\<open>cv2.findContours\<close> raises on an image that is not 8-bit.
\<close>

type_synonym contour = "(nat \<times> nat) list"

datatype interp = INTER_NEAREST | INTER_LINEAR

record cv2 =
  findContours :: "int ndarray \<Rightarrow> contour list"
  contourArea :: "contour \<Rightarrow> real"
  filled :: "contour \<Rightarrow> nat \<Rightarrow> nat \<Rightarrow> bool"
  resize_px :: "interp \<Rightarrow> int ndarray \<Rightarrow> nat \<times> nat \<Rightarrow> nat \<Rightarrow> nat \<Rightarrow> int"
  equalizeHist :: "int ndarray \<Rightarrow> int ndarray"

definition cv2_resize :: "cv2 \<Rightarrow> interp \<Rightarrow> int ndarray \<Rightarrow> nat \<times> nat \<Rightarrow> error + int ndarray" where
  "cv2_resize cv interpolation src dsize =
     (if nrows src = 0 \<or> ncols src = 0 \<or> fst dsize = 0 \<or> snd dsize = 0 then Inl Cv2Error
      else Inr \<lparr>nrows = snd dsize, ncols = fst dsize,
                rows = map (\<lambda>y. map (\<lambda>x. resize_px cv interpolation src dsize y x)
                                   [0..<fst dsize]) [0..<snd dsize]\<rparr>)"

text \<open>
  \<^verbatim>\<open>cv2.copyMakeBorder(src, 0, 0, 0, right, cv2.BORDER_CONSTANT, value=(0, 0, 0))\<close>:
  \<open>right\<close> columns of zeros are appended to every row.
\<close>

definition copyMakeBorder_right :: "int ndarray \<Rightarrow> nat \<Rightarrow> int ndarray" where
  "copyMakeBorder_right src right =
     \<lparr>nrows = nrows src, ncols = ncols src + right,
      rows = map (\<lambda>r. r @ replicate right 0) (rows src)\<rparr>"

text \<open>
  The mask \<^verbatim>\<open>_remove_background\<close> draws: \<^verbatim>\<open>np.zeros(shape, np.uint8)\<close> with the filled
  contour painted in the colour 255.
\<close>

definition drawContours_filled :: "cv2 \<Rightarrow> nat \<times> nat \<Rightarrow> contour \<Rightarrow> int ndarray" where
  "drawContours_filled cv shp c =
     \<lparr>nrows = fst shp, ncols = snd shp,
      rows = map (\<lambda>y. map (\<lambda>x. if filled cv c y x then 255 else 0) [0..<snd shp])
                 [0..<fst shp]\<rparr>"

section \<open>Geometric transform library\<close>

text \<open>
  \<^verbatim>\<open>cv2.findContours\<close> takes an 8-bit single-channel image and raises \<^verbatim>\<open>cv2.error\<close> on an
  array of another dtype. The array handed to it carries its dtype: \<open>Uint8\<close> for the
  output of \<^verbatim>\<open>astype("uint8")\<close>, \<open>OtherDtype\<close> for anything else, such as the 16-bit image
  as the decoder returns it.
\<close>

datatype dtyped = Uint8 "int ndarray" | OtherDtype "int ndarray"

fun pixels :: "dtyped \<Rightarrow> int ndarray" where
  "pixels (Uint8 a) = a"
| "pixels (OtherDtype a) = a"

text \<open>
  \<^verbatim>\<open>_binarize\<close>: \<^verbatim>\<open>(img > (img.max()*0.05)).astype("uint8")\<close>.
\<close>

definition binarize :: "int ndarray \<Rightarrow> error + dtyped" where
  "binarize img =
     bind_err (amax img)
       (\<lambda>m. Inr (Uint8 (map_px (\<lambda>p. if real_of_int p > real_of_int m * (5 / 100) then 1 else 0)
                           img)))"

text \<open>
  \<^verbatim>\<open>_find_contours\<close>: \<^verbatim>\<open>cv2.findContours\<close> raises on an image that is not 8-bit;
  \<^verbatim>\<open>max(contours, key=cv2.contourArea)\<close> raises \<^verbatim>\<open>ValueError\<close> on an empty sequence and
  returns the first contour of maximal area otherwise.
\<close>

definition find_contours :: "cv2 \<Rightarrow> dtyped \<Rightarrow> error + contour" where
  "find_contours cv bin_img =
     (case bin_img of
        OtherDtype a \<Rightarrow> Inl Cv2Error
      | Uint8 b \<Rightarrow>
          (case findContours cv b of
             [] \<Rightarrow> Inl ValueError
           | c # cs \<Rightarrow>
               Inr (fold (\<lambda>d best. if contourArea cv best < contourArea cv d then d else best)
                      cs c)))"

text \<open>
  \<^verbatim>\<open>_crop_roi\<close>: the bounding box of the contour, from \<^verbatim>\<open>np.min\<close> and \<^verbatim>\<open>np.max\<close> of its
  coordinates (\<^verbatim>\<open>ValueError\<close> on a contour without points), then
  \<^verbatim>\<open>img[y1:y2, x1:x2]\<close> and the same slice of the mask. Subscripting an integer raises
  \<^verbatim>\<open>TypeError\<close>.
\<close>

definition bounding_box :: "contour \<Rightarrow> error + (nat \<times> nat \<times> nat \<times> nat)" where
  "bounding_box c =
     (case c of
        [] \<Rightarrow> Inl ValueError
      | p # ps \<Rightarrow>
          Inr (fold min (map fst ps) (fst p), fold max (map fst ps) (fst p),
               fold min (map snd ps) (snd p), fold max (map snd ps) (snd p)))"

definition crop_roi ::
  "cv2 \<Rightarrow> int ndarray \<Rightarrow> labels option \<Rightarrow> error + (int ndarray \<times> int ndarray option)" where
  "crop_roi cv img lab =
     bind_err (binarize img) (\<lambda>bin_img.
     bind_err (find_contours cv bin_img) (\<lambda>contour.
     bind_err (bounding_box contour) (\<lambda>(x1, x2, y1, y2).
       case lab of
         None \<Rightarrow> Inr (slice2 img y1 y2 x1 x2, None)
       | Some (PyInt n) \<Rightarrow> Inl TypeError
       | Some (NdArray m) \<Rightarrow> Inr (slice2 img y1 y2 x1 x2, Some (slice2 m y1 y2 x1 x2)))))"

text \<open>
  \<^verbatim>\<open>_resize_to_height\<close>: \<^verbatim>\<open>r = h/w\<close>, \<^verbatim>\<open>new_size = (int(size[0]/r), size[0])\<close>; both
  divisions raise \<^verbatim>\<open>ZeroDivisionError\<close> on a zero divisor. \<^verbatim>\<open>r\<close> is the double nearest to
  the quotient of the two integers; \<^verbatim>\<open>size[0]\<close> is converted to a double and divided by
  \<^verbatim>\<open>r\<close>, and \<^verbatim>\<open>int\<close> truncates the rounded quotient. The image is resized with the default
  interpolation of \<^verbatim>\<open>cv2.resize\<close>, the mask with \<^verbatim>\<open>cv2.INTER_NEAREST\<close>.
\<close>

definition resize_to_height ::
  "cv2 \<Rightarrow> int ndarray \<Rightarrow> nat \<times> nat \<Rightarrow> int ndarray option
     \<Rightarrow> error + (int ndarray \<times> int ndarray option)" where
  "resize_to_height cv img sz msk =
     (let h = nrows img; w = ncols img in
      if w = 0 then Inl ZeroDivisionError
      else let r = float64 (real h / real w) in
        if r = 0 then Inl ZeroDivisionError
        else let new_size = (nat (trunc (float64 (float64 (real (fst sz)) / r))), fst sz) in
          bind_err (cv2_resize cv INTER_LINEAR img new_size) (\<lambda>img'.
            case msk of
              None \<Rightarrow> Inr (img', None)
            | Some m \<Rightarrow>
                bind_err (cv2_resize cv INTER_NEAREST m new_size) (\<lambda>m'. Inr (img', Some m'))))"

text \<open>
  \<^verbatim>\<open>_padresize_to_width\<close>: two tests on the width the image came with; the first pads on
  the right, the second resizes to \<^verbatim>\<open>(size[1], size[0])\<close>.
\<close>

definition padresize_to_width ::
  "cv2 \<Rightarrow> int ndarray \<Rightarrow> nat \<times> nat \<Rightarrow> int ndarray option
     \<Rightarrow> error + (int ndarray \<times> int ndarray option)" where
  "padresize_to_width cv img sz msk =
     (let w = ncols img;
          padded =
            (if w < snd sz
             then (copyMakeBorder_right img (snd sz - w),
                   map_option (\<lambda>m. copyMakeBorder_right m (snd sz - w)) msk)
             else (img, msk))
      in if w > snd sz
         then bind_err (cv2_resize cv INTER_LINEAR (fst padded) (snd sz, fst sz)) (\<lambda>img'.
                case snd padded of
                  None \<Rightarrow> Inr (img', None)
                | Some m \<Rightarrow>
                    bind_err (cv2_resize cv INTER_NEAREST m (snd sz, fst sz))
                      (\<lambda>m'. Inr (img', Some m')))
         else Inr padded)"

text \<open>
  \<^verbatim>\<open>_convert_to_8bit\<close>: \<^verbatim>\<open>(img / img.max()*255).astype(np.uint8)\<close>. When the maximum is 0
  numpy computes nan or inf; the quotient of the model is not meaningful there, and the
  theorems about this function assume a positive maximum.
\<close>

definition convert_to_8bit :: "int ndarray \<Rightarrow> error + int ndarray" where
  "convert_to_8bit img =
     bind_err (amax img)
       (\<lambda>m. Inr (map_px (\<lambda>p. astype_uint8 (real_of_int p / real_of_int m * 255)) img))"

definition hist_eq :: "cv2 \<Rightarrow> int ndarray \<Rightarrow> error + int ndarray" where
  "hist_eq cv img = bind_err (convert_to_8bit img) (\<lambda>img8. Inr (equalizeHist cv img8))"

text \<open>
  \<^verbatim>\<open>_remove_background(img)\<close> with \<^verbatim>\<open>remove_wlines=False\<close>, the call both pipelines make:
  \<^verbatim>\<open>img * mask\<close> with the drawn mask as it is. The image is of an unsigned dtype of
  \<open>bits\<close> bits (at least 8), which is also the dtype of the product with the
  \<^verbatim>\<open>uint8\<close> mask; numpy wraps the product around.
\<close>

definition mul_wrap :: "nat \<Rightarrow> int ndarray \<Rightarrow> int ndarray \<Rightarrow> int ndarray" where
  "mul_wrap bits a b =
     \<lparr>nrows = nrows a, ncols = ncols a,
      rows = map2 (map2 (\<lambda>p q. (p * q) mod 2 ^ bits)) (rows a) (rows b)\<rparr>"

definition remove_background :: "cv2 \<Rightarrow> nat \<Rightarrow> int ndarray \<Rightarrow> error + int ndarray" where
  "remove_background cv bits img =
     bind_err (binarize img) (\<lambda>bin_img.
     bind_err (find_contours cv bin_img) (\<lambda>contour.
       Inr (mul_wrap bits img (drawContours_filled cv (shape (pixels bin_img)) contour))))"

text \<open>
  \<^verbatim>\<open>_remove_background(img, remove_wlines=True)\<close>: rows whose last mask pixel is painted
  are cleared, and the mask is divided by \<^verbatim>\<open>mask.max()\<close>, the maximum of the drawn mask.
  The result is a float array; \<open>None\<close> is nan, which the division yields when nothing was
  drawn.
\<close>

definition remove_background_wlines :: "cv2 \<Rightarrow> int ndarray \<Rightarrow> error + real option ndarray" where
  "remove_background_wlines cv img =
     bind_err (binarize img) (\<lambda>bin_img.
     bind_err (find_contours cv bin_img) (\<lambda>contour.
       let msk = drawContours_filled cv (shape (pixels bin_img)) contour in
       if ncols msk = 0 then Inl IndexError
       else bind_err (amax msk) (\<lambda>mx.
         let white_lines_fix = map (\<lambda>r. if last r \<noteq> 255 then 1 else 0) (rows msk);
             msk' = map2 (\<lambda>r f. map (\<lambda>v. if mx = 0 then None
                                           else Some (real_of_int (v * f mod 256) / real_of_int mx)) r)
                      (rows msk) white_lines_fix
         in Inr \<lparr>nrows = nrows img, ncols = ncols img,
                 rows = map2 (map2 (\<lambda>p q. map_option (\<lambda>v. real_of_int p * v) q))
                          (rows img) msk'\<rparr>)))"

section \<open>Side correction\<close>

text \<open>
  \<^verbatim>\<open>_correct_side(img, mask=None)\<close>: the column sums are split in two; the image is kept
  when the left sum is strictly greater, and flipped otherwise. numpy accumulates the
  sums of an integer image in a 64-bit integer, which no image of realistic size
  overflows; the sums are unbounded here.
\<close>

definition left_col_sum :: "int ndarray \<Rightarrow> int" where
  "left_col_sum img = sum_list (fst (array_split2 (sum_axis0 img)))"

definition right_col_sum :: "int ndarray \<Rightarrow> int" where
  "right_col_sum img = sum_list (snd (array_split2 (sum_axis0 img)))"

definition correct_side ::
  "int ndarray \<Rightarrow> labels option \<Rightarrow> error + (int ndarray \<times> labels option)" where
  "correct_side img lab =
     (if left_col_sum img > right_col_sum img then Inr (img, lab)
      else (case lab of
              None \<Rightarrow> Inr (fliplr img, None)
            | Some l \<Rightarrow>
                (case fliplr_labels l of
                   Inl e \<Rightarrow> Inl e
                 | Inr l' \<Rightarrow> Inr (fliplr img, Some l'))))"

section \<open>Mask compositor (CBIS-DDSM)\<close>

text \<open>
  One row of the merged metadata table \<^verbatim>\<open>self.df\<close>, and the decoder
  \<^verbatim>\<open>dicom.open(path).pixelData()\<close>, a parameter.
\<close>

record mask_row =
  full_img_fname :: string
  mask_fname :: string
  pathology :: int

type_synonym decoder = "string \<Rightarrow> error + int ndarray"

text \<open>
  \<^verbatim>\<open>labels += mask_px * mask.pathology\<close>: on the initial integer the sum is a new array; on
  an array numpy adds in place, broadcasting the operand to the shape of \<^verbatim>\<open>labels\<close>
  and raising \<^verbatim>\<open>ValueError\<close> when it cannot. The sums themselves are unbounded here.
\<close>

fun iadd :: "labels \<Rightarrow> int ndarray \<Rightarrow> error + labels" where
  "iadd (PyInt n) b = Inr (NdArray (map_px (\<lambda>v. n + v) b))"
| "iadd (NdArray a) b =
     (if (nrows b = nrows a \<or> nrows b = 1) \<and> (ncols b = ncols a \<or> ncols b = 1)
      then Inr (NdArray
             \<lparr>nrows = nrows a, ncols = ncols a,
              rows = map (\<lambda>y. map (\<lambda>x. rows a ! y ! x
                                      + rows b ! (if nrows b = 1 then 0 else y)
                                               ! (if ncols b = 1 then 0 else x))
                               [0..<ncols a]) [0..<nrows a]\<rparr>)
      else Inl ValueError)"

text \<open>\<^verbatim>\<open>mask_px = (dicom.open(mask.mask_fname).pixelData() / 255).astype(np.uint8)\<close>\<close>

definition mask_px :: "int ndarray \<Rightarrow> int ndarray" where
  "mask_px m = map_px (\<lambda>p. astype_uint8 (real_of_int p / 255)) m"

fun combine_loop :: "decoder \<Rightarrow> mask_row list \<Rightarrow> labels \<Rightarrow> error + labels" where
  "combine_loop dicom_open [] lab = Inr lab"
| "combine_loop dicom_open (r # rs) lab =
     bind_err (dicom_open (mask_fname r)) (\<lambda>m.
     bind_err (iadd lab (map_px (\<lambda>v. v * pathology r) (mask_px m))) (\<lambda>lab'.
       combine_loop dicom_open rs lab'))"

definition image_info :: "mask_row list \<Rightarrow> string \<Rightarrow> mask_row list" where
  "image_info df path = filter (\<lambda>r. full_img_fname r = path) df"

definition combine_masks :: "decoder \<Rightarrow> mask_row list \<Rightarrow> string \<Rightarrow> error + labels" where
  "combine_masks dicom_open df path = combine_loop dicom_open (image_info df path) (PyInt 0)"

section \<open>Per-image pipeline (CBIS-DDSM)\<close>

text \<open>
  \<^verbatim>\<open>MammoPreprocessorCBISDDSM.preprocess_image\<close> up to the point where the result is saved
  or returned: the value is the image and the label mask that \<^verbatim>\<open>_save_image\<close> would
  receive.
\<close>

definition preprocess_image ::
  "cv2 \<Rightarrow> decoder \<Rightarrow> mask_row list \<Rightarrow> nat \<Rightarrow> nat \<times> nat \<Rightarrow> string \<Rightarrow> bool
     \<Rightarrow> error + (int ndarray \<times> int ndarray option)" where
  "preprocess_image cv dicom_open df bits image_size path use_hist_eq =
     bind_err (dicom_open path) (\<lambda>img.
     bind_err (combine_masks dicom_open df path) (\<lambda>lab.
     bind_err (correct_side img (Some lab)) (\<lambda>(img1, lab1).
     bind_err (remove_background cv bits img1) (\<lambda>img2.
     bind_err (crop_roi cv img2 lab1) (\<lambda>(img3, lab3).
     bind_err (resize_to_height cv img3 image_size lab3) (\<lambda>(img4, lab4).
     bind_err (padresize_to_width cv img4 image_size lab4) (\<lambda>(img5, lab5).
     bind_err (if use_hist_eq then hist_eq cv img5 else convert_to_8bit img5) (\<lambda>img6.
       Inr (img6, lab5)))))))))"

section \<open>Windowing (RSNA)\<close>

text \<open>
  The linear branch of \<^verbatim>\<open>_windowing\<close>, for the numbers \<^verbatim>\<open>center\<close> and \<^verbatim>\<open>width\<close> that the lines
  before it have taken from the scan, and for \<^verbatim>\<open>scan.BitsStored\<close>. The sigmoid branch,
  which calls \<^verbatim>\<open>np.exp\<close>, is not modelled.

  The decoder returns the stored values in an array of an integer dtype, or, for a file
  with rescale tags, an array of \<^verbatim>\<open>float32\<close>, and NumPy computes differently on the two:
  \<^item> an integer array that meets a Python float is converted to doubles, exactly, and the
    arithmetic is in double precision; the assignment back into the integer array
    truncates toward zero;
  \<^item> for a \<^verbatim>\<open>float32\<close> array the Python float or integer that meets it is rounded to
    single precision (24 bits), and so is the result of every operation; the assignment
    stores the value as it is.
  The pixel values of both kinds of array are real numbers here, and \<open>dtype\<close> tells the
  kind. \<^verbatim>\<open>center -= 0.5\<close>, \<^verbatim>\<open>width -= 1\<close> and the two cuts are computed by Python in double
  precision before they meet the array.
\<close>

datatype dtype = IntDtype | Float32Dtype

definition array_float :: "dtype \<Rightarrow> real \<Rightarrow> real" where
  "array_float dt v = (case dt of IntDtype \<Rightarrow> float64 v | Float32Dtype \<Rightarrow> round_to 24 v)"

definition scalar_cast :: "dtype \<Rightarrow> real \<Rightarrow> real" where
  "scalar_cast dt v = (case dt of IntDtype \<Rightarrow> v | Float32Dtype \<Rightarrow> round_to 24 v)"

definition store_float :: "dtype \<Rightarrow> real \<Rightarrow> real" where
  "store_float dt v = (case dt of IntDtype \<Rightarrow> real_of_int (trunc v) | Float32Dtype \<Rightarrow> v)"

definition store_int :: "dtype \<Rightarrow> int \<Rightarrow> real" where
  "store_int dt n =
     (case dt of IntDtype \<Rightarrow> real_of_int n | Float32Dtype \<Rightarrow> round_to 24 (real_of_int n))"

text \<open>
  The three index masks are computed first, then \<^verbatim>\<open>img[below] = 0\<close>,
  \<^verbatim>\<open>img[above] = y_range\<close> and the assignment of the interpolated values, in place.
\<close>

definition windowing_linear :: "dtype \<Rightarrow> real \<Rightarrow> real \<Rightarrow> nat \<Rightarrow> real ndarray \<Rightarrow> real ndarray" where
  "windowing_linear dt center0 width0 bits_stored img =
     (let y_range = 2 ^ bits_stored - 1;
          center = float64 (center0 - 1 / 2);
          width = float64 (width0 - 1);
          low = float64 (center - float64 (width / 2));
          high = float64 (center + float64 (width / 2));
          below = (\<lambda>p. p \<le> scalar_cast dt low);
          above = (\<lambda>p. p > scalar_cast dt high)
      in map_px (\<lambda>p.
           let p1 = (if below p then store_int dt 0 else p);
               p2 = (if above p then store_int dt y_range else p1)
           in if \<not> below p \<and> \<not> above p
              then store_float dt
                     (array_float dt
                        (array_float dt
                           (array_float dt (array_float dt (p2 - scalar_cast dt center)
                                            / scalar_cast dt width)
                            + 1 / 2)
                         * array_float dt (real_of_int y_range)))
              else p2) img)"

section \<open>An instance of the OpenCV interface\<close>

text \<open>
  A small instance for evaluating the functions on concrete images: every nonzero pixel
  is a contour of its own, one point long; the area is Green's formula; a filled contour
  paints its points; resizing replicates the pixel at the scaled position for both
  interpolation methods; histogram equalisation leaves the image as it is. On images of
  one foreground pixel this is what OpenCV computes.
\<close>

definition pixel_contours :: "int ndarray \<Rightarrow> contour list" where
  "pixel_contours b =
     concat (map (\<lambda>y. concat (map (\<lambda>x. if rows b ! y ! x \<noteq> 0 then [[(x, y)]] else [])
                                  [0..<ncols b])) [0..<nrows b])"

fun cross_sum :: "contour \<Rightarrow> int" where
  "cross_sum (p # q # ps) =
     int (fst p) * int (snd q) - int (fst q) * int (snd p) + cross_sum (q # ps)"
| "cross_sum ps = 0"

definition green_area :: "contour \<Rightarrow> real" where
  "green_area c = (case c of [] \<Rightarrow> 0 | p # ps \<Rightarrow> \<bar>real_of_int (cross_sum (c @ [p]))\<bar> / 2)"

definition on_contour :: "contour \<Rightarrow> nat \<Rightarrow> nat \<Rightarrow> bool" where
  "on_contour c y x = List.member c (x, y)"

definition replicate_px :: "interp \<Rightarrow> int ndarray \<Rightarrow> nat \<times> nat \<Rightarrow> nat \<Rightarrow> nat \<Rightarrow> int" where
  "replicate_px interpolation src dsize y x =
     rows src ! min (y * nrows src div snd dsize) (nrows src - 1)
              ! min (x * ncols src div fst dsize) (ncols src - 1)"

definition cv_pixels :: cv2 where
  "cv_pixels =
     \<lparr>findContours = pixel_contours, contourArea = green_area, filled = on_contour,
      resize_px = replicate_px, equalizeHist = (\<lambda>a. a)\<rparr>"

text \<open>
  A decoder and a metadata table for evaluating the mask compositor and the pipeline: one
  image with a benign and a malignant mask that overlap in the first pixel, and two images
  the table has no row for.
\<close>

definition example_decoder :: decoder where
  "example_decoder path =
     (if path = ''full.dcm'' then Inr \<lparr>nrows = 2, ncols = 2, rows = [[1000, 900], [800, 0]]\<rparr>
      else if path = ''benign.dcm''
        then Inr \<lparr>nrows = 2, ncols = 2, rows = [[255, 128], [0, 0]]\<rparr>
      else if path = ''malignant.dcm''
        then Inr \<lparr>nrows = 2, ncols = 2, rows = [[255, 0], [0, 255]]\<rparr>
      else if path = ''other_left.dcm''
        then Inr \<lparr>nrows = 2, ncols = 2, rows = [[1000, 0], [0, 0]]\<rparr>
      else if path = ''other_right.dcm''
        then Inr \<lparr>nrows = 2, ncols = 2, rows = [[0, 1000], [0, 0]]\<rparr>
      else Inl RuntimeError)"

definition example_df :: "mask_row list" where
  "example_df =
     [\<lparr>full_img_fname = ''full.dcm'', mask_fname = ''benign.dcm'', pathology = 1\<rparr>,
      \<lparr>full_img_fname = ''full.dcm'', mask_fname = ''malignant.dcm'', pathology = 2\<rparr>]"

section \<open>Predicates used in the statements\<close>

definition all_zero :: "int ndarray \<Rightarrow> bool" where
  "all_zero a = list_all (list_all (\<lambda>p. p = 0)) (rows a)"

text \<open>
  What the statements about an all-zero image need from \<^verbatim>\<open>cv2.findContours\<close>: every
  contour it returns for the image \<open>b\<close> has a point, and its points are nonzero pixels
  of \<open>b\<close>.
\<close>

definition contours_on_foreground :: "cv2 \<Rightarrow> int ndarray \<Rightarrow> bool" where
  "contours_on_foreground cv b =
     list_all (\<lambda>c. c \<noteq> [] \<and>
                 list_all (\<lambda>(x, y). y < nrows b \<and> x < ncols b \<and> rows b ! y ! x \<noteq> 0) c)
       (findContours cv b)"

text \<open>
  The width the specification gives for the height-normalised image, in its words:
  \<^verbatim>\<open>round(target_height / aspect_ratio)\<close>.
\<close>

definition spec_resized_width :: "nat \<Rightarrow> nat \<Rightarrow> nat \<Rightarrow> int" where
  "spec_resized_width H h w = round (real H / (real h / real w))"

text \<open>
  The value the specification gives for a pixel between the cuts of the linear window, in
  its words: \<^verbatim>\<open>((p - center') / width' + 0.5) * y_range\<close> with \<^verbatim>\<open>center' = center - 0.5\<close>
  and \<^verbatim>\<open>width' = width - 1\<close>.
\<close>

definition spec_linear_value :: "real \<Rightarrow> real \<Rightarrow> int \<Rightarrow> real \<Rightarrow> real" where
  "spec_linear_value center width y_range p =
     ((p - (center - 1 / 2)) / (width - 1) + 1 / 2) * real_of_int y_range"

text \<open>
  A number that the floating-point types at work on an array of the given kind represent:
  doubles, in which Python computes, and for a \<^verbatim>\<open>float32\<close> array single precision too.
\<close>

definition representable :: "dtype \<Rightarrow> real \<Rightarrow> bool" where
  "representable dt v \<longleftrightarrow> float64 v = v \<and> array_float dt v = v"

text \<open>\<^verbatim>\<open>a.min()\<close>, the counterpart of \<open>amax\<close>, to speak about the range of an array.\<close>

definition amin :: "('a::linorder) ndarray \<Rightarrow> error + 'a" where
  "amin a = (case concat (rows a) of [] \<Rightarrow> Inl ValueError | v # vs \<Rightarrow> Inr (fold min vs v))"

section \<open>Auxiliary lemmas\<close>

lemma bind_err_Inl [simp]: "bind_err (Inl e) f = Inl e"
  by (simp add: bind_err_def)

lemma bind_err_Inr [simp]: "bind_err (Inr v) f = f v"
  by (simp add: bind_err_def)

lemma bind_err_eq_Inr: "bind_err m f = Inr y \<longleftrightarrow> (\<exists>v. m = Inr v \<and> f v = Inr y)"
  by (cases m) simp_all

lemma bind_err_eq_Inl:
  "bind_err m f = Inl e \<longleftrightarrow> m = Inl e \<or> (\<exists>v. m = Inr v \<and> f v = Inl e)"
  by (cases m) simp_all

lemma trunc_nonneg: "0 \<le> v \<Longrightarrow> trunc v = \<lfloor>v\<rfloor>"
  by (simp add: trunc_def)

lemma cv2_resize_Inr:
  "cv2_resize cv i a d = Inr b \<Longrightarrow> nrows b = snd d \<and> ncols b = fst d \<and> 0 < fst d \<and> 0 < snd d"
  by (auto simp: cv2_resize_def split: if_splits)

lemma cv2_resize_wf: "cv2_resize cv i a d = Inr b \<Longrightarrow> wf_arr b"
  by (auto simp: cv2_resize_def wf_arr_def list_all_iff split: if_splits)

lemma new_width_eq:
  assumes "0 < h" "0 < w"
  shows "nat (trunc (real H / (real h / real w))) = (H * w) div h"
proof -
  have eq: "real H / (real h / real w) = real (H * w) / real h"
    using assms by (simp add: field_simps)
  have "0 \<le> real (H * w) / real h" by simp
  then have "trunc (real (H * w) / real h) = \<lfloor>real (H * w) / real h\<rfloor>"
    by (rule trunc_nonneg)
  also have "\<dots> = int ((H * w) div h)"
    by (rule floor_divide_of_nat_eq)
  finally show ?thesis
    unfolding eq by simp
qed

subsection \<open>Rounding of doubles\<close>

lemma ilog2_bounds:
  assumes "0 < x"
  shows "2 powi (ilog2 x) \<le> x \<and> x < 2 powi (ilog2 x + 1)"
proof (cases "1 \<le> x")
  case True
  define n where "n = \<lfloor>x\<rfloor>"
  have n1: "1 \<le> n" using True by (simp add: n_def)
  then have n0: "0 < n" by simp
  from bitlen_bounds [OF n0] have lo: "2 ^ nat (bitlen n - 1) \<le> n" and hi: "n < 2 ^ nat (bitlen n)"
    by simp_all
  have b1: "1 \<le> bitlen n" using n0 by (simp add: bitlen_alt_def)
  have e: "ilog2 x = bitlen n - 1" using True by (simp add: ilog2_def n_def)
  have "2 powi (bitlen n - 1) = (2::real) ^ nat (bitlen n - 1)"
    using b1 by (simp add: power_int_nonneg_exp)
  also have "\<dots> = real_of_int (2 ^ nat (bitlen n - 1))" by simp
  also have "\<dots> \<le> real_of_int n" using lo by (simp only: of_int_le_iff)
  also have "\<dots> \<le> x" by (simp add: n_def)
  finally have A: "2 powi (ilog2 x) \<le> x" by (simp add: e)
  have "x < real_of_int (n + 1)" by (simp add: n_def)
  also have "\<dots> \<le> real_of_int (2 ^ nat (bitlen n))"
  proof -
    from hi have "n + 1 \<le> 2 ^ nat (bitlen n)" by simp
    then show ?thesis by (simp only: of_int_le_iff)
  qed
  also have "\<dots> = 2 ^ nat (bitlen n)" by simp
  also have "\<dots> = 2 powi (bitlen n)" using b1 by (simp add: power_int_nonneg_exp)
  finally have B: "x < 2 powi (ilog2 x + 1)" by (simp add: e)
  from A B show ?thesis ..
next
  case False
  define y where "y = 1 / x"
  define m where "m = \<lceil>y\<rceil>"
  define k where "k = bitlen (m - 1)"
  have y1: "1 < y" using False assms by (simp add: y_def)
  then have m2: "2 \<le> m" unfolding m_def by linarith
  then have m0: "0 < m - 1" by simp
  from bitlen_bounds [OF m0] have lo: "2 ^ nat (k - 1) \<le> m - 1" and hi: "m - 1 < 2 ^ nat k"
    by (simp_all add: k_def)
  have k1: "1 \<le> k" using m0 by (simp add: k_def bitlen_alt_def)
  have e: "ilog2 x = - k" using False by (simp add: ilog2_def k_def m_def y_def)
  have x: "x = 1 / y" using assms by (simp add: y_def)
  have "m \<le> 2 ^ nat k" using hi by simp
  then have "real_of_int m \<le> 2 ^ nat k" by simp
  moreover have "y \<le> real_of_int m" by (simp add: m_def)
  ultimately have yk: "y \<le> 2 ^ nat k" by linarith
  have "real_of_int (2 ^ nat (k - 1)) \<le> real_of_int (m - 1)"
    using lo by (simp only: of_int_le_iff)
  then have "2 ^ nat (k - 1) \<le> real_of_int (m - 1)"
    by (simp only: of_int_power of_int_numeral)
  moreover have "real_of_int (m - 1) < y" unfolding m_def by linarith
  ultimately have ky: "2 ^ nat (k - 1) < y" by linarith
  have "2 powi (- k) = 1 / (2::real) ^ nat k"
    using k1 by (simp add: power_int_minus_divide power_int_nonneg_exp)
  also have "\<dots> \<le> 1 / y" using yk y1 by (simp add: frac_le)
  finally have "2 powi (- k) \<le> x" by (simp add: x)
  then have A: "2 powi (ilog2 x) \<le> x" by (simp only: e)
  have "1 / y < 1 / (2::real) ^ nat (k - 1)" using ky by (simp add: frac_less2)
  also have "\<dots> = 2 powi (- (k - 1))"
  proof -
    have "(2::real) powi (k - 1) = 2 ^ nat (k - 1)"
      using k1 by (intro power_int_nonneg_exp) simp
    then show ?thesis
      by (simp only: power_int_minus_divide)
  qed
  finally have "x < 2 powi (- (k - 1))" by (simp add: x)
  moreover have "ilog2 x + 1 = - (k - 1)" by (simp add: e)
  ultimately have B: "x < 2 powi (ilog2 x + 1)" by (simp only:)
  from A B show ?thesis ..
qed

lemma ilog2_mono:
  assumes "0 < x" "x \<le> y"
  shows "ilog2 x \<le> ilog2 y"
proof -
  from ilog2_bounds [OF assms(1)] have "2 powi (ilog2 x) \<le> x" ..
  also note assms(2)
  also from ilog2_bounds [of y] assms have "y < 2 powi (ilog2 y + 1)" by simp
  finally have lt: "(2::real) powi (ilog2 x) < 2 powi (ilog2 y + 1)" .
  have "ilog2 x < ilog2 y + 1"
  proof (rule ccontr)
    assume "\<not> ilog2 x < ilog2 y + 1"
    then have "ilog2 y + 1 \<le> ilog2 x" by simp
    then have "(2::real) powi (ilog2 y + 1) \<le> 2 powi (ilog2 x)"
      by (intro power_int_increasing) simp_all
    with lt show False by simp
  qed
  then show ?thesis by simp
qed

lemma round_half_even_bounds:
  "\<lfloor>q\<rfloor> \<le> round_half_even q \<and> round_half_even q \<le> \<lfloor>q\<rfloor> + 1"
  by (simp add: round_half_even_def Let_def)

lemma round_half_even_of_int [simp]: "round_half_even (of_int n) = n"
  by (simp add: round_half_even_def Let_def)

lemma round_half_even_mono:
  assumes "q \<le> q'"
  shows "round_half_even q \<le> round_half_even q'"
proof (cases "\<lfloor>q\<rfloor> = \<lfloor>q'\<rfloor>")
  case True
  with assms show ?thesis
    by (auto simp: round_half_even_def Let_def)
next
  case False
  with assms have "\<lfloor>q\<rfloor> < \<lfloor>q'\<rfloor>"
    by (simp add: floor_mono order.not_eq_order_implies_strict)
  with round_half_even_bounds [of q] round_half_even_bounds [of q'] show ?thesis
    by linarith
qed

lemma round_half_even_error: "\<bar>of_int (round_half_even q) - q\<bar> \<le> 1 / 2"
  unfolding round_half_even_def Let_def by (auto; linarith)

lemma round_to_pos_bounds:
  assumes "0 < x" "0 < p"
  shows "2 powi (ilog2 x) \<le> round_to_pos p x \<and> round_to_pos p x \<le> 2 powi (ilog2 x + 1)"
proof -
  define u :: real where "u = 2 powi (ilog2 x - (int p - 1))"
  have u0: "0 < u" by (simp add: u_def)
  have pw: "2 powi (ilog2 x) = 2 ^ (p - 1) * u"
  proof -
    have "(2::real) powi (ilog2 x) = 2 powi (int (p - 1) + (ilog2 x - (int p - 1)))"
      using assms(2) by (simp add: of_nat_diff)
    also have "\<dots> = 2 powi (int (p - 1)) * 2 powi (ilog2 x - (int p - 1))"
      by (rule power_int_add) simp
    finally show ?thesis by (simp add: u_def)
  qed
  have pw1: "2 powi (ilog2 x + 1) = 2 ^ p * u"
  proof -
    have "(2::real) powi (ilog2 x + 1) = 2 powi (int p + (ilog2 x - (int p - 1)))"
      by simp
    also have "\<dots> = 2 powi (int p) * 2 powi (ilog2 x - (int p - 1))"
      by (rule power_int_add) simp
    finally show ?thesis by (simp add: u_def)
  qed
  from ilog2_bounds [OF assms(1)] have "2 ^ (p - 1) * u \<le> x" "x < 2 ^ p * u"
    by (simp_all add: pw pw1)
  with u0 have q: "real_of_int (2 ^ (p - 1)) \<le> x / u" "x / u \<le> real_of_int (2 ^ p)"
    by (simp_all add: field_simps)
  from round_half_even_mono [OF q(1)] round_half_even_mono [OF q(2)]
  have "2 ^ (p - 1) \<le> round_half_even (x / u)" "round_half_even (x / u) \<le> 2 ^ p"
    by (simp_all only: round_half_even_of_int)
  then have "real_of_int (2 ^ (p - 1)) \<le> real_of_int (round_half_even (x / u))"
      "real_of_int (round_half_even (x / u)) \<le> real_of_int (2 ^ p)"
    by (simp_all only: of_int_le_iff)
  with u0 have "2 ^ (p - 1) * u \<le> real_of_int (round_half_even (x / u)) * u"
      "real_of_int (round_half_even (x / u)) * u \<le> 2 ^ p * u"
    by simp_all
  then show ?thesis
    by (simp add: pw pw1 round_to_pos_def Let_def u_def)
qed

lemma round_to_pos_mono:
  assumes "0 < x" "x \<le> y" "0 < p"
  shows "round_to_pos p x \<le> round_to_pos p y"
proof (cases "ilog2 x = ilog2 y")
  case True
  have "0 < (2::real) powi (ilog2 y - (int p - 1))" by simp
  with assms(2) have "x / 2 powi (ilog2 y - (int p - 1)) \<le> y / 2 powi (ilog2 y - (int p - 1))"
    by (simp add: divide_right_mono)
  from round_half_even_mono [OF this] show ?thesis
    by (simp add: round_to_pos_def Let_def True)
next
  case False
  with ilog2_mono [OF assms(1,2)] have "ilog2 x + 1 \<le> ilog2 y" by simp
  then have "(2::real) powi (ilog2 x + 1) \<le> 2 powi (ilog2 y)"
    by (intro power_int_increasing) simp_all
  moreover from round_to_pos_bounds [OF assms(1,3)]
  have "round_to_pos p x \<le> 2 powi (ilog2 x + 1)" ..
  moreover from round_to_pos_bounds [of y p] assms
  have "2 powi (ilog2 y) \<le> round_to_pos p y" by simp
  ultimately show ?thesis by linarith
qed

lemma round_to_pos_pos: "0 < x \<Longrightarrow> 0 < p \<Longrightarrow> 0 < round_to_pos p x"
  using round_to_pos_bounds [of x p] zero_less_power_int [of "2::real" "ilog2 x"] by linarith

lemma round_to_pos': "0 < x \<Longrightarrow> 0 < p \<Longrightarrow> 0 < round_to p x"
  by (simp add: round_to_def round_to_pos_pos)

lemma round_to_mono:
  assumes "x \<le> y" "0 < p"
  shows "round_to p x \<le> round_to p y"
proof -
  consider (pp) "0 < x" | (zp) "x = 0" "0 < y" | (zz) "x = 0" "y = 0" | (np) "x < 0" "0 < y"
    | (nz) "x < 0" "y = 0" | (nn) "x < 0" "y < 0"
    using assms(1) by linarith
  then show ?thesis
  proof cases
    case pp
    with assms show ?thesis by (simp add: round_to_def round_to_pos_mono)
  next
    case zp
    with round_to_pos_pos [of y p] assms show ?thesis by (simp add: round_to_def)
  next
    case zz
    then show ?thesis by simp
  next
    case np
    with round_to_pos_pos [of y p] round_to_pos_pos [of "- x" p] assms show ?thesis
      by (simp add: round_to_def)
  next
    case nz
    with round_to_pos_pos [of "- x" p] assms show ?thesis by (simp add: round_to_def)
  next
    case nn
    with round_to_pos_mono [of "- y" "- x" p] assms show ?thesis by (simp add: round_to_def)
  qed
qed

lemma float64_mono: "x \<le> y \<Longrightarrow> float64 x \<le> float64 y"
  by (simp add: float64_def round_to_mono)

lemma float64_pos: "0 < x \<Longrightarrow> 0 < float64 x"
  by (simp add: float64_def round_to_pos')

lemma float64_one: "float64 1 = 1"
  by code_simp

lemma resized_width_pos:
  assumes "0 < h" "0 < w" "h \<le> H * w"
  shows "0 < nat (trunc (float64 (float64 (real H) / float64 (real h / real w))))"
proof -
  let ?r = "float64 (real h / real w)"
  have r0: "0 < ?r"
    using assms by (intro float64_pos) simp
  have "real h \<le> real (H * w)"
    using assms(3) by (simp only: of_nat_le_iff)
  then have "real h / real w \<le> real H"
    using assms(2) by (simp add: field_simps)
  then have "?r \<le> float64 (real H)"
    by (rule float64_mono)
  with r0 have "1 \<le> float64 (real H) / ?r"
    by simp
  then have "float64 1 \<le> float64 (float64 (real H) / ?r)"
    by (rule float64_mono)
  then have "1 \<le> float64 (float64 (real H) / ?r)"
    by (simp only: float64_one)
  then have "1 \<le> trunc (float64 (float64 (real H) / ?r))"
    by (simp add: trunc_def le_floor_iff)
  then show ?thesis by simp
qed

lemma resized_width_exact:
  assumes "0 < h" "0 < w"
    and "float64 (real h / real w) = real h / real w"
    and "float64 (real H) = real H"
    and "float64 (real H / (real h / real w)) = real H / (real h / real w)"
  shows "nat (trunc (float64 (float64 (real H) / float64 (real h / real w)))) = (H * w) div h"
  using new_width_eq [OF assms(1,2), of H] by (simp only: assms(3-5))

text \<open>
  The relative error of one rounding is at most \<open>2 powi - 53\<close>. For sizes with
  \<open>H * w < 2 ^ 50\<close> the three roundings in \<^verbatim>\<open>int(H / (h/w))\<close> move the quotient by less
  than \<open>1 / h\<close>: the truncated value is \<open>(H * w) div h\<close>, or one less when the exact
  quotient is a whole number.
\<close>

lemma round_to_pos_error:
  assumes "0 < x" "0 < p"
  shows "\<bar>round_to_pos p x - x\<bar> \<le> x / 2 ^ p"
proof -
  define u :: real where "u = 2 powi (ilog2 x - (int p - 1))"
  have u0: "0 < u" by (simp add: u_def)
  have pw: "2 powi (ilog2 x) = 2 ^ (p - 1) * u"
  proof -
    have "(2::real) powi (ilog2 x) = 2 powi (int (p - 1) + (ilog2 x - (int p - 1)))"
      using assms(2) by (simp add: of_nat_diff)
    also have "\<dots> = 2 powi (int (p - 1)) * 2 powi (ilog2 x - (int p - 1))"
      by (rule power_int_add) simp
    finally show ?thesis by (simp add: u_def)
  qed
  from ilog2_bounds [OF assms(1)] have "2 ^ (p - 1) * u \<le> x"
    by (simp add: pw)
  moreover have tp: "(2::real) ^ p = 2 * 2 ^ (p - 1)"
    using assms(2) by (cases p) simp_all
  have "2 ^ p * u = 2 * (2 ^ (p - 1) * u)"
    by (simp only: tp mult.assoc)
  ultimately have "2 ^ p * u \<le> 2 * x" by linarith
  then have ux: "u / 2 \<le> x / 2 ^ p"
    by (simp add: field_simps)
  have rt: "round_to_pos p x = of_int (round_half_even (x / u)) * u"
    by (simp only: round_to_pos_def Let_def u_def)
  have "x = x / u * u" using u0 by simp
  then have "round_to_pos p x - x = of_int (round_half_even (x / u)) * u - x / u * u"
    by (simp only: rt)
  then have "round_to_pos p x - x = (of_int (round_half_even (x / u)) - x / u) * u"
    by (simp only: left_diff_distrib)
  then have "\<bar>round_to_pos p x - x\<bar> = \<bar>of_int (round_half_even (x / u)) - x / u\<bar> * u"
    using u0 by (simp add: abs_mult)
  also have "\<dots> \<le> (1 / 2) * u"
    using round_half_even_error [of "x / u"] u0 by (intro mult_right_mono) simp_all
  also have "\<dots> \<le> x / 2 ^ p" using ux by simp
  finally show ?thesis .
qed

lemma float64_error:
  assumes "0 < x"
  shows "x * (1 - 1 / 2 ^ 53) \<le> float64 x \<and> float64 x \<le> x * (1 + 1 / 2 ^ 53)"
proof -
  define d where "d = x / 2 ^ 53"
  from round_to_pos_error [OF assms, of 53] have "\<bar>float64 x - x\<bar> \<le> d"
    using assms by (simp add: float64_def round_to_def d_def)
  then have "x - d \<le> float64 x" "float64 x \<le> x + d"
    by linarith+
  moreover have "x * (1 - 1 / 2 ^ 53) = x - d" "x * (1 + 1 / 2 ^ 53) = x + d"
    unfolding d_def
    by (simp_all only: right_diff_distrib distrib_left mult_1_right times_divide_eq_right)
  ultimately show ?thesis by (simp only:)
qed


lemma resized_width_estimate:
  assumes h: "0 < h" and w: "0 < w" and H: "0 < H"
  defines "z \<equiv> float64 (float64 (real H) / float64 (real h / real w))"
  shows "real (H * w) / real h * ((1 - 1 / 2 ^ 53) * (1 - 1 / 2 ^ 53) / (1 + 1 / 2 ^ 53)) \<le> z
     \<and> z \<le> real (H * w) / real h * ((1 + 1 / 2 ^ 53) * (1 + 1 / 2 ^ 53) / (1 - 1 / 2 ^ 53))"
proof -
  define e :: real where "e = 1 / 2 ^ 53"
  have e0: "0 < e" and e1: "e < 1" by (simp_all add: e_def)
  define a where "a = real h / real w"
  define Q where "Q = real (H * w) / real h"
  have a0: "0 < a" using h w by (simp add: a_def)
  have Q0: "0 < Q" using h w H by (simp add: Q_def)
  have Qa: "real H / a = Q" using h w by (simp add: Q_def a_def)
  define r where "r = float64 a"
  define Hf where "Hf = float64 (real H)"
  define q where "q = Hf / r"
  from float64_error [OF a0] have r: "a * (1 - e) \<le> r" "r \<le> a * (1 + e)"
    by (simp_all only: r_def e_def)
  have H0: "0 < real H" using H by simp
  from float64_error [OF H0] have Hf: "real H * (1 - e) \<le> Hf" "Hf \<le> real H * (1 + e)"
    by (simp_all only: Hf_def e_def)
  have r0: "0 < a * (1 - e)" using a0 e1 by simp
  then have r0': "0 < r" using r(1) by linarith
  have Hf0: "0 < real H * (1 - e)" using H0 e1 by simp
  then have Hf0': "0 < Hf" using Hf(1) by linarith
  have q0: "0 < q" using r0' Hf0' by (simp add: q_def)
  have "q \<le> real H * (1 + e) / (a * (1 - e))"
    unfolding q_def using Hf0' Hf(2) r0 r(1) by (intro frac_le) simp_all
  also have "\<dots> = Q * ((1 + e) / (1 - e))"
    using a0 e1 by (simp add: Qa [symmetric])
  finally have qu: "q \<le> Q * ((1 + e) / (1 - e))" .
  have ra: "0 < a * (1 + e)" using a0 e0 by simp
  have "real H * (1 - e) / (a * (1 + e)) \<le> q"
    unfolding q_def using Hf0 Hf(1) r0' r(2) by (intro frac_le) simp_all
  moreover have "real H * (1 - e) / (a * (1 + e)) = Q * ((1 - e) / (1 + e))"
    using a0 e0 by (simp add: Qa [symmetric])
  ultimately have ql: "Q * ((1 - e) / (1 + e)) \<le> q" by simp
  from float64_error [OF q0] have zq: "q * (1 - e) \<le> z" "z \<le> q * (1 + e)"
    by (simp_all only: z_def q_def Hf_def r_def a_def e_def)
  note zq(2)
  also have "q * (1 + e) \<le> Q * ((1 + e) / (1 - e)) * (1 + e)"
    using qu e0 by (intro mult_right_mono) simp_all
  also have "\<dots> = Q * ((1 + e) * (1 + e) / (1 - e))"
    by simp
  finally have U: "z \<le> Q * ((1 + e) * (1 + e) / (1 - e))" .
  have "Q * ((1 - e) * (1 - e) / (1 + e)) = Q * ((1 - e) / (1 + e)) * (1 - e)"
    by simp
  also have "\<dots> \<le> q * (1 - e)"
    using ql e1 by (intro mult_right_mono) simp_all
  also note zq(1)
  finally have L: "Q * ((1 - e) * (1 - e) / (1 + e)) \<le> z" .
  from L U show ?thesis
    by (simp only: Q_def e_def)
qed


lemma resized_width_cases:
  assumes h: "0 < h" and w: "0 < w" and H: "0 < H" and small: "H * w < 2 ^ 50"
  defines "nw \<equiv> nat (trunc (float64 (float64 (real H) / float64 (real h / real w))))"
  shows "nw = (H * w) div h \<or> (h dvd H * w \<and> nw + 1 = (H * w) div h)"
proof -
  define z where "z = float64 (float64 (real H) / float64 (real h / real w))"
  define A where "A = H * w"
  define n where "n = A div h"
  define c2 :: real where "c2 = (1 + 1 / 2 ^ 53) * (1 + 1 / 2 ^ 53) / (1 - 1 / 2 ^ 53)"
  define c3 :: real where "c3 = (1 - 1 / 2 ^ 53) * (1 - 1 / 2 ^ 53) / (1 + 1 / 2 ^ 53)"
  have N2: "2 ^ 50 * (c2 - 1) < 1" and c21: "0 \<le> c2 - 1" by (simp_all add: c2_def)
  have N3: "2 ^ 50 * (1 - c3) < 1" and c31: "0 \<le> 1 - c3" and c30: "0 < c3"
    by (simp_all add: c3_def)
  from resized_width_estimate [OF h w H]
  have L: "real A / real h * c3 \<le> z" and U: "z \<le> real A / real h * c2"
    by (simp_all only: z_def A_def c2_def c3_def)
  have hr: "0 < real h" using h by simp
  have A0: "0 < A" using H w by (simp add: A_def)
  have Ar: "real A \<le> 2 ^ 50"
  proof -
    from small have "A \<le> 2 ^ 50" by (simp add: A_def)
    then have "real A \<le> real (2 ^ 50)" by (simp only: of_nat_le_iff)
    then show ?thesis by simp
  qed
  have div: "A = n * h + A mod h" by (simp add: n_def)
  have modlt: "A mod h < h" using h by simp
  have z0: "0 < z"
  proof -
    have "0 < real A / real h * c3" using A0 hr c30 by simp
    with L show ?thesis by linarith
  qed
  then have tr: "trunc z = \<lfloor>z\<rfloor>" by (simp add: trunc_def)
  have up: "\<lfloor>z\<rfloor> \<le> int n"
  proof -
    have "real A * (c2 - 1) \<le> 2 ^ 50 * (c2 - 1)"
      using Ar c21 by (rule mult_right_mono)
    with N2 have "real A * (c2 - 1) < 1" by linarith
    then have 1: "real A * c2 < real A + 1" by (simp add: right_diff_distrib)
    have "A + 1 \<le> (n + 1) * h" using div modlt by (simp add: algebra_simps)
    then have "real (A + 1) \<le> real ((n + 1) * h)" by (simp only: of_nat_le_iff)
    then have 2: "real A + 1 \<le> (real n + 1) * real h" by (simp add: algebra_simps)
    have "real A / real h * c2 = real A * c2 / real h" by simp
    also have "\<dots> < (real A + 1) / real h"
      using 1 hr by (simp add: divide_strict_right_mono)
    also have "\<dots> \<le> real n + 1"
      using 2 hr by (simp add: pos_divide_le_eq)
    finally have "z < real n + 1" using U by linarith
    then have "z < real_of_int (int n + 1)" by simp
    then have "\<lfloor>z\<rfloor> < int n + 1" by (simp only: floor_less_iff)
    then show ?thesis by simp
  qed
  have A3: "real A - 1 \<le> real A * c3"
  proof -
    have "real A * (1 - c3) \<le> 2 ^ 50 * (1 - c3)"
      using Ar c31 by (rule mult_right_mono)
    with N3 have "real A * (1 - c3) < 1" by linarith
    then show ?thesis by (simp add: right_diff_distrib)
  qed
  have low: "(real A - 1) / real h \<le> z"
  proof -
    have "(real A - 1) / real h \<le> real A * c3 / real h"
      using A3 hr by (simp add: divide_right_mono)
    also have "\<dots> = real A / real h * c3" by simp
    finally show ?thesis using L by linarith
  qed
  show ?thesis
  proof (cases "h dvd A")
    case False
    then have "0 < A mod h" by (simp add: dvd_eq_mod_eq_0)
    with div have "n * h + 1 \<le> A" by linarith
    then have "real (n * h + 1) \<le> real A" by (simp only: of_nat_le_iff)
    then have "real n * real h \<le> real A - 1" by simp
    then have "real n \<le> (real A - 1) / real h"
      using hr by (simp add: pos_le_divide_eq)
    with low have "real_of_int (int n) \<le> z" by simp
    then have "int n \<le> \<lfloor>z\<rfloor>" by (simp only: le_floor_iff)
    with up have "\<lfloor>z\<rfloor> = int n" by simp
    then have "nw = n" by (simp add: nw_def z_def [symmetric] tr)
    then show ?thesis by (simp add: n_def A_def)
  next
    case True
    then have "A mod h = 0" by simp
    with div have An: "A = n * h" by simp
    have h1: "1 \<le> real h" using h by simp
    have "real n - 1 \<le> (real A - 1) / real h"
    proof -
      have "(real A - 1) / real h = real n - 1 / real h"
        using hr by (simp add: An diff_divide_distrib)
      moreover have "1 / real h \<le> 1" using h1 by simp
      ultimately show ?thesis by linarith
    qed
    with low have "real_of_int (int n - 1) \<le> z" by simp
    then have "int n - 1 \<le> \<lfloor>z\<rfloor>" by (simp only: le_floor_iff)
    moreover have "0 \<le> \<lfloor>z\<rfloor>" using z0 by simp
    ultimately have "nat \<lfloor>z\<rfloor> = n \<or> nat \<lfloor>z\<rfloor> + 1 = n"
      using up by linarith
    then have "nw = n \<or> nw + 1 = n" by (simp add: nw_def z_def [symmetric] tr)
    with True show ?thesis by (auto simp: n_def A_def)
  qed
qed

subsection \<open>The shape \<^verbatim>\<open>_resize_to_height\<close> returns\<close>

lemma resize_to_height_img:
  assumes "resize_to_height cv img sz msk = Inr (img', msk')"
  shows "0 < nrows img \<and> 0 < ncols img
     \<and> cv2_resize cv INTER_LINEAR img
          (nat (trunc (float64 (float64 (real (fst sz))
                                  / float64 (real (nrows img) / real (ncols img))))),
           fst sz) = Inr img'"
proof -
  from assms have w: "0 < ncols img"
    by (auto simp: resize_to_height_def Let_def split: if_splits)
  from assms w have r: "float64 (real (nrows img) / real (ncols img)) \<noteq> 0"
    by (auto simp: resize_to_height_def Let_def split: if_splits)
  have h: "0 < nrows img"
  proof (rule ccontr)
    assume "\<not> 0 < nrows img"
    then have "float64 (real (nrows img) / real (ncols img)) = 0"
      by (simp add: float64_def round_to_def)
    with r show False ..
  qed
  from assms w r have "cv2_resize cv INTER_LINEAR img
          (nat (trunc (float64 (float64 (real (fst sz))
                                  / float64 (real (nrows img) / real (ncols img))))),
           fst sz) = Inr img'"
    by (auto simp: resize_to_height_def Let_def bind_err_eq_Inr split: if_splits option.splits)
  with h w show ?thesis by simp
qed



lemma resize_to_height_mask:
  assumes "resize_to_height cv img sz (Some m) = Inr (img', msk')"
  shows "\<exists>m'. msk' = Some m' \<and> shape m' = shape img'"
proof -
  let ?d = "(nat (trunc (float64 (float64 (real (fst sz))
                                   / float64 (real (nrows img) / real (ncols img))))),
             fst sz)"
  from resize_to_height_img [OF assms]
  have i: "cv2_resize cv INTER_LINEAR img ?d = Inr img'" and pos: "0 < nrows img" "0 < ncols img"
    by simp_all
  from assms pos obtain m' where m: "msk' = Some m'" "cv2_resize cv INTER_NEAREST m ?d = Inr m'"
    by (auto simp: resize_to_height_def Let_def bind_err_eq_Inr split: if_splits)
  from cv2_resize_Inr [OF i] cv2_resize_Inr [OF m(2)] m(1) show ?thesis
    by (simp add: shape_def)
qed

lemma resize_to_height_total:
  assumes "0 < nrows img" "0 < ncols img" "nrows img \<le> H * ncols img"
  shows "\<exists>img'. resize_to_height cv img (H, W) None = Inr (img', None)"
proof -
  have "0 < nat (trunc (float64 (float64 (real H)
                                   / float64 (real (nrows img) / real (ncols img)))))"
    using assms by (rule resized_width_pos)
  moreover have "0 < H" using assms by (cases H) auto
  moreover have "float64 (real (nrows img) / real (ncols img)) \<noteq> 0"
    using float64_pos [of "real (nrows img) / real (ncols img)"] assms by simp
  ultimately show ?thesis
    using assms by (simp add: resize_to_height_def Let_def cv2_resize_def)
qed

section \<open>Side correction flips unless the left half is strictly heavier\<close>

text \<open>
  Claim C3, as the code has it. \<^verbatim>\<open>_correct_side\<close> splits the column sums after the
  first \<open>(w + 1) div 2\<close> columns and sums each part. It returns image and mask unchanged
  exactly when the left sum is strictly greater than the right sum; otherwise, also when
  the two sums are equal, it mirrors the image and the mask horizontally.
\<close>

theorem correct_side_keeps_iff_left_greater:
  "left_col_sum img = sum_list (take ((ncols img + 1) div 2) (sum_axis0 img))
   \<and> right_col_sum img = sum_list (drop ((ncols img + 1) div 2) (sum_axis0 img))
   \<and> correct_side img None
       = Inr (if right_col_sum img < left_col_sum img then img else fliplr img, None)
   \<and> correct_side img (Some (NdArray m))
       = Inr (if right_col_sum img < left_col_sum img then (img, Some (NdArray m))
              else (fliplr img, Some (NdArray (fliplr m))))"
proof -
  have len: "length (sum_axis0 img) = ncols img"
    by (simp add: sum_axis0_def)
  have k: "ncols img div 2 + ncols img mod 2 = (ncols img + 1) div 2"
    by presburger
  show ?thesis
    by (simp add: left_col_sum_def right_col_sum_def array_split2_def Let_def len k
        correct_side_def)
qed

text \<open>
  The theorem at an image whose right half is the heavier one, with a mask: both are
  mirrored.
\<close>

theorem correct_side_keeps_iff_left_greater_witness:
  "correct_side \<lparr>nrows = 2, ncols = 3, rows = [[0, 1, 4], [0, 2, 5]]\<rparr>
      (Some (NdArray \<lparr>nrows = 2, ncols = 3, rows = [[0, 0, 1], [0, 0, 2]]\<rparr>))
     = Inr (\<lparr>nrows = 2, ncols = 3, rows = [[4, 1, 0], [5, 2, 0]]\<rparr>,
            Some (NdArray \<lparr>nrows = 2, ncols = 3, rows = [[1, 0, 0], [2, 0, 0]]\<rparr>))"
proof -
  have l: "left_col_sum \<lparr>nrows = 2, ncols = 3, rows = [[0, 1, 4], [0, 2, 5]]\<rparr> = 3"
    by code_simp
  have r: "right_col_sum \<lparr>nrows = 2, ncols = 3, rows = [[0, 1, 4], [0, 2, 5]]\<rparr> = 9"
    by code_simp
  show ?thesis
    using correct_side_keeps_iff_left_greater
      [of "\<lparr>nrows = 2, ncols = 3, rows = [[0, 1, 4], [0, 2, 5]]\<rparr>"
          "\<lparr>nrows = 2, ncols = 3, rows = [[0, 0, 1], [0, 0, 2]]\<rparr>"]
    by (simp add: l r fliplr_def)
qed

text \<open>
  The claim as written fails on a tie: the two halves of this image weigh the same, the
  right half does not exceed the left, and the image is mirrored all the same.
\<close>

theorem correct_side_flips_on_tie:
  "\<not> left_col_sum \<lparr>nrows = 2, ncols = 2, rows = [[1, 0], [0, 1]]\<rparr>
       < right_col_sum \<lparr>nrows = 2, ncols = 2, rows = [[1, 0], [0, 1]]\<rparr>
   \<and> correct_side \<lparr>nrows = 2, ncols = 2, rows = [[1, 0], [0, 1]]\<rparr> None
       = Inr (\<lparr>nrows = 2, ncols = 2, rows = [[0, 1], [1, 0]]\<rparr>, None)"
  by code_simp

section \<open>Resizing to the target height truncates the width\<close>

text \<open>
  Claim C6, as the code has it. Whenever \<^verbatim>\<open>_resize_to_height\<close> returns, the height of the
  result is the target height \<open>H\<close> and its width is \<^verbatim>\<open>int(H / (h/w))\<close> as Python computes
  it: both quotients rounded to doubles, the second truncated toward zero. The width is
  \<open>(H * w) div h\<close> when doubles represent \<open>H\<close> and both quotients exactly; for
  \<open>H * w < 2 ^ 50\<close> it is \<open>(H * w) div h\<close>, or one less than that in case \<open>h\<close> divides
  \<open>H * w\<close>. A mask comes back with the shape of the image. The function returns for
  every image with \<open>0 < h\<close>, \<open>0 < w\<close> and \<open>h \<le> H * w\<close>.
\<close>

theorem resize_to_height_shape:
  "(\<forall>img' msk'. resize_to_height cv img (H, W) msk = Inr (img', msk') \<longrightarrow>
      nrows img' = H
      \<and> ncols img'
          = nat (trunc (float64 (float64 (real H)
                                  / float64 (real (nrows img) / real (ncols img)))))
      \<and> (float64 (real (nrows img) / real (ncols img)) = real (nrows img) / real (ncols img)
           \<and> float64 (real H) = real H
           \<and> float64 (real H / (real (nrows img) / real (ncols img)))
               = real H / (real (nrows img) / real (ncols img)) \<longrightarrow>
         ncols img' = (H * ncols img) div nrows img)
      \<and> (H * ncols img < 2 ^ 50 \<longrightarrow>
         ncols img' = (H * ncols img) div nrows img
         \<or> (nrows img dvd H * ncols img \<and> ncols img' + 1 = (H * ncols img) div nrows img))
      \<and> (\<forall>m. msk = Some m \<longrightarrow> (\<exists>m'. msk' = Some m' \<and> shape m' = shape img')))
   \<and> (0 < nrows img \<and> 0 < ncols img \<and> nrows img \<le> H * ncols img \<longrightarrow>
        (\<exists>img'. resize_to_height cv img (H, W) None = Inr (img', None)))"
proof (intro conjI allI impI)
  fix img' msk'
  assume r: "resize_to_height cv img (H, W) msk = Inr (img', msk')"
  let ?nw = "nat (trunc (float64 (float64 (real H)
                                   / float64 (real (nrows img) / real (ncols img)))))"
  from resize_to_height_img [OF r]
  have h: "0 < nrows img" and w: "0 < ncols img"
    and i: "cv2_resize cv INTER_LINEAR img (?nw, H) = Inr img'"
    by simp_all
  from cv2_resize_Inr [OF i] show "nrows img' = H" and nw: "ncols img' = ?nw"
    by simp_all
  from cv2_resize_Inr [OF i] have H: "0 < H"
    by simp
  {
    assume "float64 (real (nrows img) / real (ncols img)) = real (nrows img) / real (ncols img)
           \<and> float64 (real H) = real H
           \<and> float64 (real H / (real (nrows img) / real (ncols img)))
               = real H / (real (nrows img) / real (ncols img))"
    then have "?nw = (H * ncols img) div nrows img"
      using h w by (intro resized_width_exact) simp_all
    with nw show "ncols img' = (H * ncols img) div nrows img" by simp
  }
  {
    assume "H * ncols img < 2 ^ 50"
    from resized_width_cases [OF h w H this] nw
    show "ncols img' = (H * ncols img) div nrows img
         \<or> (nrows img dvd H * ncols img \<and> ncols img' + 1 = (H * ncols img) div nrows img)"
      by simp
  }
  fix m assume "msk = Some m"
  with r have "resize_to_height cv img (H, W) (Some m) = Inr (img', msk')" by simp
  then show "\<exists>m'. msk' = Some m' \<and> shape m' = shape img'"
    by (rule resize_to_height_mask)
next
  assume "0 < nrows img \<and> 0 < ncols img \<and> nrows img \<le> H * ncols img"
  then show "\<exists>img'. resize_to_height cv img (H, W) None = Inr (img', None)"
    by (intro resize_to_height_total) simp_all
qed

text \<open>
  The theorem at a 2 by 1 image with a mask and the target height 4, where doubles
  represent both quotients.
\<close>

theorem resize_to_height_shape_witness:
  "resize_to_height cv_pixels \<lparr>nrows = 2, ncols = 1, rows = [[1], [2]]\<rparr> (4, 5)
      (Some \<lparr>nrows = 2, ncols = 1, rows = [[0], [1]]\<rparr>)
     = Inr (\<lparr>nrows = 4, ncols = 2, rows = [[1, 1], [1, 1], [2, 2], [2, 2]]\<rparr>,
            Some \<lparr>nrows = 4, ncols = 2, rows = [[0, 0], [0, 0], [1, 1], [1, 1]]\<rparr>)
   \<and> float64 (2 / 1) = 2 / 1 \<and> float64 4 = 4 \<and> float64 (4 / (2 / 1)) = 4 / (2 / 1)
   \<and> nat (trunc (float64 (float64 4 / float64 (2 / 1)))) = 2
   \<and> (4 * 1) div 2 = (2 :: nat)
   \<and> (4 :: nat) * 1 < 2 ^ 50
   \<and> (\<exists>img'. resize_to_height cv_pixels \<lparr>nrows = 2, ncols = 1, rows = [[1], [2]]\<rparr>
                (4, 5) None = Inr (img', None))"
proof -
  have e: "resize_to_height cv_pixels \<lparr>nrows = 2, ncols = 1, rows = [[1], [2]]\<rparr> (4, 5)
      (Some \<lparr>nrows = 2, ncols = 1, rows = [[0], [1]]\<rparr>)
     = Inr (\<lparr>nrows = 4, ncols = 2, rows = [[1, 1], [1, 1], [2, 2], [2, 2]]\<rparr>,
            Some \<lparr>nrows = 4, ncols = 2, rows = [[0, 0], [0, 0], [1, 1], [1, 1]]\<rparr>)"
    by code_simp
  have f: "float64 (2 / 1) = 2 / 1 \<and> float64 4 = 4 \<and> float64 (4 / (2 / 1)) = 4 / (2 / 1)"
    by code_simp
  have g: "nat (trunc (float64 (float64 4 / float64 (2 / 1)))) = 2"
    by code_simp
  have t: "\<exists>img'. resize_to_height cv_pixels \<lparr>nrows = 2, ncols = 1, rows = [[1], [2]]\<rparr>
                (4, 5) None = Inr (img', None)"
    using resize_to_height_shape
      [of cv_pixels "\<lparr>nrows = 2, ncols = 1, rows = [[1], [2]]\<rparr>" 4 5
          "Some \<lparr>nrows = 2, ncols = 1, rows = [[0], [1]]\<rparr>"]
    by simp
  from e f g t show ?thesis
    by simp
qed

text \<open>
  The claim as written fails where the quotient has a fractional part of at least one
  half: for a 4 by 1 image and the target height 7 the quotient is 1.75, the code makes
  the result 1 wide, and rounding gives 2. It also fails where the rounding of doubles
  takes a whole quotient below the whole number: for a 9 by 7 image and the target height
  9 the quotient is 7, the double nearest to 9/7 lies above it, 9 divided by that double
  rounds to the double just below 7, and the code makes the result 6 wide.
\<close>

theorem resize_to_height_truncates_example:
  "resize_to_height cv_pixels \<lparr>nrows = 4, ncols = 1, rows = [[1], [2], [3], [4]]\<rparr> (7, 5) None
     = Inr (\<lparr>nrows = 7, ncols = 1, rows = [[1], [1], [2], [2], [3], [3], [4]]\<rparr>, None)
   \<and> spec_resized_width 7 4 1 = 2
   \<and> map_sum id (\<lambda>(img', msk'). shape img')
        (resize_to_height cv_pixels \<lparr>nrows = 9, ncols = 7, rows = replicate 9 [1, 2, 3, 4, 5, 6, 7]\<rparr>
           (9, 5) None)
      = Inr (9, 6)
   \<and> float64 (9 / 7) = 5790342378047781 / 4503599627370496
   \<and> float64 (float64 9 / float64 (9 / 7)) = 7881299347898367 / 1125899906842624
   \<and> spec_resized_width 9 9 7 = 7"
  by code_simp

section \<open>Quantisation to 8 bits scales by the maximum only\<close>

lemma amax_iff:
  "amax a = Inr M \<longleftrightarrow> M \<in> set (concat (rows a)) \<and> (\<forall>v\<in>set (concat (rows a)). v \<le> M)"
proof (cases "concat (rows a)")
  case Nil
  show ?thesis unfolding amax_def Nil by simp
next
  case (Cons v vs)
  have "fold max vs v = Max (set (v # vs))"
    by (rule Max.set_eq_fold [symmetric])
  then have "amax a = Inr (Max (set (concat (rows a))))"
    using Cons by (simp add: amax_def)
  moreover have "Max (set (concat (rows a))) = M \<longleftrightarrow>
      M \<in> set (concat (rows a)) \<and> (\<forall>v\<in>set (concat (rows a)). v \<le> M)"
    using Cons by (intro Max_eq_iff) simp_all
  ultimately show ?thesis by auto
qed

lemma amin_iff:
  "amin a = Inr M \<longleftrightarrow> M \<in> set (concat (rows a)) \<and> (\<forall>v\<in>set (concat (rows a)). M \<le> v)"
proof (cases "concat (rows a)")
  case Nil
  show ?thesis unfolding amin_def Nil by simp
next
  case (Cons v vs)
  have "fold min vs v = Min (set (v # vs))"
    by (rule Min.set_eq_fold [symmetric])
  then have "amin a = Inr (Min (set (concat (rows a))))"
    using Cons by (simp add: amin_def)
  moreover have "Min (set (concat (rows a))) = M \<longleftrightarrow>
      M \<in> set (concat (rows a)) \<and> (\<forall>v\<in>set (concat (rows a)). M \<le> v)"
    using Cons by (intro Min_eq_iff) simp_all
  ultimately show ?thesis by auto
qed

lemma concat_rows_map_px: "concat (rows (map_px f a)) = map f (concat (rows a))"
  by (simp add: map_px_def map_concat)

lemma shape_map_px: "shape (map_px f a) = shape a"
  by (simp add: map_px_def shape_def)

lemma scale_255:
  assumes "0 < m" "0 \<le> p" "p \<le> m"
  shows "astype_uint8 (real_of_int p / real_of_int m * 255) = (255 * p) div m"
proof -
  have eq: "real_of_int p / real_of_int m * 255 = real_of_int (255 * p) / real_of_int m"
    by simp
  have nn: "0 \<le> real_of_int (255 * p) / real_of_int m"
    using assms by simp
  have "trunc (real_of_int (255 * p) / real_of_int m) = \<lfloor>real_of_int (255 * p) / real_of_int m\<rfloor>"
    using nn by (rule trunc_nonneg)
  also have "\<dots> = (255 * p) div m"
    by (rule floor_divide_of_int_eq)
  finally have t: "trunc (real_of_int p / real_of_int m * 255) = (255 * p) div m"
    unfolding eq .
  have "0 \<le> (255 * p) div m"
    using assms by (simp add: pos_imp_zdiv_nonneg_iff)
  moreover have "(255 * p) div m \<le> 255"
  proof -
    have "(255 * p) div m \<le> (255 * m) div m"
      using assms by (intro zdiv_mono1) simp_all
    then show ?thesis using assms by simp
  qed
  ultimately show ?thesis
    unfolding astype_uint8_def t by simp
qed

text \<open>
  Claim C8, as the code has it. For an image of non-negative pixels with a positive
  maximum \<open>m\<close>, \<^verbatim>\<open>_convert_to_8bit\<close> returns an array of the same shape in which the
  pixel \<open>p\<close> has become \<open>(255 * p) div m\<close>: the values lie between 0 and 255 and the
  maximum 255 is attained. The minimum 0 is attained exactly when some pixel \<open>p\<close> has
  \<open>255 * p < m\<close>; there is no black point, so a non-constant image need not reach 0.
\<close>

theorem convert_to_8bit_range:
  assumes mx: "amax img = Inr m" and pos: "0 < m"
    and nn: "list_all (list_all (\<lambda>p. 0 \<le> p)) (rows img)"
  shows "\<exists>out. convert_to_8bit img = Inr out \<and> shape out = shape img
           \<and> rows out = map (map (\<lambda>p. (255 * p) div m)) (rows img)
           \<and> list_all (list_all (\<lambda>v. 0 \<le> v \<and> v \<le> 255)) (rows out)
           \<and> amax out = Inr 255
           \<and> (amin out = Inr 0 \<longleftrightarrow> list_ex (list_ex (\<lambda>p. 255 * p < m)) (rows img))"
proof -
  let ?f = "\<lambda>p. astype_uint8 (real_of_int p / real_of_int m * 255)"
  let ?g = "\<lambda>p. (255 * p) div m"
  let ?out = "map_px ?f img"
  have c: "convert_to_8bit img = Inr ?out"
    using mx by (simp add: convert_to_8bit_def)
  have inr: "\<And>r p. r \<in> set (rows img) \<Longrightarrow> p \<in> set r \<Longrightarrow> 0 \<le> p \<and> p \<le> m"
    using nn mx by (auto simp: list_all_iff amax_iff)
  have fg: "\<And>r p. r \<in> set (rows img) \<Longrightarrow> p \<in> set r \<Longrightarrow> ?f p = ?g p"
  proof -
    fix r p assume a: "r \<in> set (rows img)" "p \<in> set r"
    from inr [OF a] pos show "?f p = ?g p"
      by (intro scale_255) simp_all
  qed
  have rows: "rows ?out = map (map ?g) (rows img)"
    using fg by (auto simp: map_px_def)
  have bounds: "\<And>r p. r \<in> set (rows img) \<Longrightarrow> p \<in> set r \<Longrightarrow> 0 \<le> ?g p \<and> ?g p \<le> 255"
  proof -
    fix r p assume a: "r \<in> set (rows img)" "p \<in> set r"
    from inr [OF a] pos have "0 \<le> ?g p"
      by (simp add: pos_imp_zdiv_nonneg_iff)
    moreover have "?g p \<le> (255 * m) div m"
      using inr [OF a] pos by (intro zdiv_mono1) simp_all
    ultimately show "0 \<le> ?g p \<and> ?g p \<le> 255" using pos by simp
  qed
  have rng: "list_all (list_all (\<lambda>v. 0 \<le> v \<and> v \<le> 255)) (rows ?out)"
    unfolding rows using bounds by (auto simp: list_all_iff)
  have m_in: "m \<in> set (concat (rows img))"
    using mx by (simp add: amax_iff)
  have "?g m = 255" using pos by simp
  then have "255 \<in> ?g ` set (concat (rows img))"
    using m_in by (metis image_eqI)
  then have top: "amax ?out = Inr 255"
    unfolding amax_iff rows using bounds by (auto simp: map_concat)
  have low: "amin ?out = Inr 0 \<longleftrightarrow> list_ex (list_ex (\<lambda>p. 255 * p < m)) (rows img)"
  proof
    assume "amin ?out = Inr 0"
    then have "0 \<in> set (concat (rows ?out))" by (simp add: amin_iff)
    then obtain r p where a: "r \<in> set (rows img)" "p \<in> set r" and z: "?g p = 0"
      unfolding rows by auto
    from z pos inr [OF a] have "255 * p < m"
      by (auto simp: zdiv_eq_0_iff)
    with a show "list_ex (list_ex (\<lambda>p. 255 * p < m)) (rows img)"
      by (auto simp: list_ex_iff)
  next
    assume "list_ex (list_ex (\<lambda>p. 255 * p < m)) (rows img)"
    then obtain r p where a: "r \<in> set (rows img)" "p \<in> set r" and z: "255 * p < m"
      by (auto simp: list_ex_iff)
    from z inr [OF a] have "?g p = 0"
      by (simp add: div_pos_pos_trivial)
    with a have "0 \<in> set (concat (rows ?out))"
      unfolding rows by force
    then show "amin ?out = Inr 0"
      unfolding amin_iff using bounds rows by auto
  qed
  from c rows rng top low show ?thesis
    by (intro exI [of _ ?out]) (simp add: shape_map_px)
qed

text \<open>The theorem at an image with a zero pixel, whose output covers the whole range.\<close>

theorem convert_to_8bit_range_witness:
  "amax \<lparr>nrows = 1, ncols = 3, rows = [[0, 100, 200]]\<rparr> = Inr (200 :: int)
   \<and> list_all (list_all (\<lambda>p. 0 \<le> p)) (rows \<lparr>nrows = 1, ncols = 3, rows = [[0, 100, 200 :: int]]\<rparr>)
   \<and> (\<exists>out. convert_to_8bit \<lparr>nrows = 1, ncols = 3, rows = [[0, 100, 200]]\<rparr> = Inr out
          \<and> rows out = [[0, 127, 255]] \<and> amax out = Inr 255 \<and> amin out = Inr 0)"
proof -
  have mx: "amax \<lparr>nrows = 1, ncols = 3, rows = [[0, 100, 200]]\<rparr> = Inr (200 :: int)"
    by code_simp
  have pos: "(0 :: int) < 200"
    by simp
  have nn: "list_all (list_all (\<lambda>p. 0 \<le> p))
      (rows \<lparr>nrows = 1, ncols = 3, rows = [[0, 100, 200 :: int]]\<rparr>)"
    by simp
  from convert_to_8bit_range [OF mx pos nn] mx nn show ?thesis
    by auto
qed

text \<open>
  The claim as written fails on the non-constant image with the pixels 1 and 2: the
  output has the pixels 127 and 255, and its minimum is 127.
\<close>

theorem convert_to_8bit_minimum_example:
  "convert_to_8bit \<lparr>nrows = 1, ncols = 2, rows = [[1, 2]]\<rparr>
     = Inr \<lparr>nrows = 1, ncols = 2, rows = [[127, 255]]\<rparr>
   \<and> amin \<lparr>nrows = 1, ncols = 2, rows = [[127, 255 :: int]]\<rparr> = Inr 127"
  by code_simp

section \<open>Image and mask go through the geometric transforms in step\<close>

lemma shape_slice2:
  "shape a = shape b \<Longrightarrow> shape (slice2 a y1 y2 x1 x2) = shape (slice2 b y1 y2 x1 x2)"
  by (simp add: shape_def slice2_def)

lemma shape_fliplr: "shape (fliplr a) = shape a"
  by (simp add: shape_def fliplr_def)

lemma shape_copyMakeBorder_right:
  "shape (copyMakeBorder_right a k) = (nrows a, ncols a + k)"
  by (simp add: shape_def copyMakeBorder_right_def)

lemma wf_slice2: "wf_arr a \<Longrightarrow> wf_arr (slice2 a y1 y2 x1 x2)"
proof -
  assume wf: "wf_arr a"
  have "\<And>r. r \<in> set (drop y1 (take y2 (rows a))) \<Longrightarrow> r \<in> set (rows a)"
    by (meson in_set_dropD in_set_takeD)
  then have "\<And>r. r \<in> set (drop y1 (take y2 (rows a))) \<Longrightarrow> length r = ncols a"
    using wf by (simp add: wf_arr_def list_all_iff)
  then show ?thesis
    using wf by (auto simp: wf_arr_def slice2_def list_all_iff min_def)
qed

lemma wf_fliplr: "wf_arr a \<Longrightarrow> wf_arr (fliplr a)"
  by (simp add: wf_arr_def fliplr_def list_all_iff)

lemma wf_copyMakeBorder_right: "wf_arr a \<Longrightarrow> wf_arr (copyMakeBorder_right a k)"
  by (simp add: wf_arr_def copyMakeBorder_right_def list_all_iff)

lemma bind_err_InrE:
  assumes "bind_err m f = Inr y"
  obtains v where "m = Inr v" "f v = Inr y"
  using assms by (cases m) simp_all

lemma crop_roi_Inr:
  assumes "crop_roi cv img (Some (NdArray m)) = Inr (img', msk')"
  obtains x1 x2 y1 y2 where "img' = slice2 img y1 y2 x1 x2" "msk' = Some (slice2 m y1 y2 x1 x2)"
proof -
  from assms obtain b c bb where "bounding_box c = Inr bb"
    and r: "(case bb of (x1, x2, y1, y2) \<Rightarrow>
           Inr (slice2 img y1 y2 x1 x2, Some (slice2 m y1 y2 x1 x2))) = Inr (img', msk')"
    unfolding crop_roi_def by (elim bind_err_InrE) (simp split: prod.splits)
  obtain x1 x2 y1 y2 where "bb = (x1, x2, y1, y2)"
    by (cases bb) auto
  with r have "img' = slice2 img y1 y2 x1 x2" "msk' = Some (slice2 m y1 y2 x1 x2)"
    by auto
  then show thesis by (rule that)
qed

text \<open>
  Claim C1. For an image and a 2-D mask of the same shape, whenever one of the geometric
  transforms returns, it returns an image and a mask of the same shape, and both were
  made by the same operation: \<^verbatim>\<open>_crop_roi\<close> slices both with one bounding box,
  \<^verbatim>\<open>_resize_to_height\<close> resizes both to one destination size,
  \<^verbatim>\<open>_padresize_to_width\<close> pads both by the same number of columns, resizes both to the
  target size or leaves both alone, and \<^verbatim>\<open>_correct_side\<close> keeps both or mirrors both.
  Wherever the mask is resized, the interpolation is \<^verbatim>\<open>cv2.INTER_NEAREST\<close>. The rows of
  the results agree with their shapes.
\<close>

theorem transforms_keep_mask_in_step:
  assumes sh: "shape m = shape img" and wfi: "wf_arr img" and wfm: "wf_arr m"
  shows
    "(\<forall>img' msk'. crop_roi cv img (Some (NdArray m)) = Inr (img', msk') \<longrightarrow>
        (\<exists>x1 x2 y1 y2 m'. img' = slice2 img y1 y2 x1 x2 \<and> m' = slice2 m y1 y2 x1 x2
            \<and> msk' = Some m' \<and> shape m' = shape img' \<and> wf_arr img' \<and> wf_arr m'))
     \<and> (\<forall>img' msk'. resize_to_height cv img sz (Some m) = Inr (img', msk') \<longrightarrow>
        (\<exists>dsize m'. cv2_resize cv INTER_LINEAR img dsize = Inr img'
            \<and> cv2_resize cv INTER_NEAREST m dsize = Inr m'
            \<and> msk' = Some m' \<and> shape m' = shape img' \<and> wf_arr img' \<and> wf_arr m'))
     \<and> (\<forall>img' msk'. padresize_to_width cv img sz (Some m) = Inr (img', msk') \<longrightarrow>
        (\<exists>m'. msk' = Some m' \<and> shape m' = shape img' \<and> wf_arr img' \<and> wf_arr m'
            \<and> ((\<exists>k. img' = copyMakeBorder_right img k \<and> m' = copyMakeBorder_right m k)
               \<or> (cv2_resize cv INTER_LINEAR img (snd sz, fst sz) = Inr img'
                  \<and> cv2_resize cv INTER_NEAREST m (snd sz, fst sz) = Inr m')
               \<or> (img' = img \<and> m' = m))))
     \<and> (\<forall>img' msk'. correct_side img (Some (NdArray m)) = Inr (img', msk') \<longrightarrow>
        (\<exists>m'. msk' = Some (NdArray m') \<and> shape m' = shape img' \<and> wf_arr img' \<and> wf_arr m'
            \<and> ((img' = img \<and> m' = m) \<or> (img' = fliplr img \<and> m' = fliplr m))))"
proof (intro conjI allI impI)
  fix img' msk'
  assume "crop_roi cv img (Some (NdArray m)) = Inr (img', msk')"
  then obtain x1 x2 y1 y2 where "img' = slice2 img y1 y2 x1 x2"
      "msk' = Some (slice2 m y1 y2 x1 x2)"
    by (rule crop_roi_Inr)
  moreover have "shape (slice2 m y1 y2 x1 x2) = shape (slice2 img y1 y2 x1 x2)"
    using sh by (rule shape_slice2)
  ultimately show "\<exists>x1 x2 y1 y2 m'. img' = slice2 img y1 y2 x1 x2 \<and> m' = slice2 m y1 y2 x1 x2
            \<and> msk' = Some m' \<and> shape m' = shape img' \<and> wf_arr img' \<and> wf_arr m'"
    using wfi wfm by (auto simp: wf_slice2)
next
  fix img' msk'
  assume "resize_to_height cv img sz (Some m) = Inr (img', msk')"
  then obtain dsize m' where r: "cv2_resize cv INTER_LINEAR img dsize = Inr img'"
      "cv2_resize cv INTER_NEAREST m dsize = Inr m'" "msk' = Some m'"
    by (auto simp: resize_to_height_def Let_def bind_err_eq_Inr split: if_splits)
  moreover from r have "shape m' = shape img'"
    by (auto simp: shape_def dest!: cv2_resize_Inr)
  moreover from r have "wf_arr img'" "wf_arr m'"
    by (auto dest: cv2_resize_wf)
  ultimately show "\<exists>dsize m'. cv2_resize cv INTER_LINEAR img dsize = Inr img'
            \<and> cv2_resize cv INTER_NEAREST m dsize = Inr m'
            \<and> msk' = Some m' \<and> shape m' = shape img' \<and> wf_arr img' \<and> wf_arr m'"
    by blast
next
  fix img' msk'
  assume p: "padresize_to_width cv img sz (Some m) = Inr (img', msk')"
  have nc: "ncols m = ncols img" using sh by (simp add: shape_def)
  consider (pad) "ncols img < snd sz" | (big) "snd sz < ncols img" | (same) "ncols img = snd sz"
    by linarith
  then show "\<exists>m'. msk' = Some m' \<and> shape m' = shape img' \<and> wf_arr img' \<and> wf_arr m'
            \<and> ((\<exists>k. img' = copyMakeBorder_right img k \<and> m' = copyMakeBorder_right m k)
               \<or> (cv2_resize cv INTER_LINEAR img (snd sz, fst sz) = Inr img'
                  \<and> cv2_resize cv INTER_NEAREST m (snd sz, fst sz) = Inr m')
               \<or> (img' = img \<and> m' = m))"
  proof cases
    case pad
    with p have "img' = copyMakeBorder_right img (snd sz - ncols img)"
        "msk' = Some (copyMakeBorder_right m (snd sz - ncols img))"
      by (auto simp: padresize_to_width_def Let_def)
    moreover have "shape (copyMakeBorder_right m (snd sz - ncols img))
        = shape (copyMakeBorder_right img (snd sz - ncols img))"
      using sh by (simp add: shape_def copyMakeBorder_right_def)
    ultimately show ?thesis
      using wfi wfm by (auto simp: wf_copyMakeBorder_right)
  next
    case big
    with p obtain m' where r: "cv2_resize cv INTER_LINEAR img (snd sz, fst sz) = Inr img'"
        "cv2_resize cv INTER_NEAREST m (snd sz, fst sz) = Inr m'" "msk' = Some m'"
      by (auto simp: padresize_to_width_def Let_def bind_err_eq_Inr)
    moreover from r have "shape m' = shape img'"
      by (auto simp: shape_def dest!: cv2_resize_Inr)
    moreover from r have "wf_arr img'" "wf_arr m'"
      by (auto dest: cv2_resize_wf)
    ultimately show ?thesis
      by blast
  next
    case same
    with p have "img' = img" "msk' = Some m"
      by (auto simp: padresize_to_width_def Let_def)
    with sh wfi wfm show ?thesis by simp
  qed
next
  fix img' msk'
  assume "correct_side img (Some (NdArray m)) = Inr (img', msk')"
  then have "(img' = img \<and> msk' = Some (NdArray m))
      \<or> (img' = fliplr img \<and> msk' = Some (NdArray (fliplr m)))"
    by (auto simp: correct_side_def split: if_splits)
  with sh wfi wfm show "\<exists>m'. msk' = Some (NdArray m') \<and> shape m' = shape img' \<and> wf_arr img' \<and> wf_arr m'
            \<and> ((img' = img \<and> m' = m) \<or> (img' = fliplr img \<and> m' = fliplr m))"
    by (auto simp: shape_fliplr wf_fliplr)
qed

text \<open>
  The theorem at a 3 by 3 image with a 2 by 2 block of foreground and a mask over the
  block; for the crop, \<open>findContours\<close> returns the outline of the block.
\<close>

theorem transforms_keep_mask_in_step_witness:
  "shape \<lparr>nrows = 3, ncols = 3, rows = [[0, 0, 0], [0, 1, 1], [0, 1, 2]]\<rparr>
      = shape \<lparr>nrows = 3, ncols = 3, rows = [[0, 0, 0], [0, 9, 9], [0, 9, 9]]\<rparr>
   \<and> wf_arr \<lparr>nrows = 3, ncols = 3, rows = [[0, 0, 0], [0, 9, 9], [0, 9, 9]]\<rparr>
   \<and> wf_arr \<lparr>nrows = 3, ncols = 3, rows = [[0, 0, 0], [0, 1, 1], [0, 1, 2]]\<rparr>
   \<and> crop_roi (cv_pixels\<lparr>findContours := \<lambda>b. [[(1, 1), (1, 2), (2, 2), (2, 1)]]\<rparr>)
        \<lparr>nrows = 3, ncols = 3, rows = [[0, 0, 0], [0, 9, 9], [0, 9, 9]]\<rparr>
        (Some (NdArray \<lparr>nrows = 3, ncols = 3, rows = [[0, 0, 0], [0, 1, 1], [0, 1, 2]]\<rparr>))
      = Inr (\<lparr>nrows = 1, ncols = 1, rows = [[9]]\<rparr>, Some \<lparr>nrows = 1, ncols = 1, rows = [[1]]\<rparr>)
   \<and> resize_to_height cv_pixels \<lparr>nrows = 3, ncols = 3, rows = [[0, 0, 0], [0, 9, 9], [0, 9, 9]]\<rparr> (6, 4)
        (Some \<lparr>nrows = 3, ncols = 3, rows = [[0, 0, 0], [0, 1, 1], [0, 1, 2]]\<rparr>)
      = Inr (\<lparr>nrows = 6, ncols = 6,
               rows = [[0, 0, 0, 0, 0, 0], [0, 0, 0, 0, 0, 0], [0, 0, 9, 9, 9, 9],
                       [0, 0, 9, 9, 9, 9], [0, 0, 9, 9, 9, 9], [0, 0, 9, 9, 9, 9]]\<rparr>,
             Some \<lparr>nrows = 6, ncols = 6,
               rows = [[0, 0, 0, 0, 0, 0], [0, 0, 0, 0, 0, 0], [0, 0, 1, 1, 1, 1],
                       [0, 0, 1, 1, 1, 1], [0, 0, 1, 1, 2, 2], [0, 0, 1, 1, 2, 2]]\<rparr>)
   \<and> padresize_to_width cv_pixels \<lparr>nrows = 3, ncols = 3, rows = [[0, 0, 0], [0, 9, 9], [0, 9, 9]]\<rparr> (3, 5)
        (Some \<lparr>nrows = 3, ncols = 3, rows = [[0, 0, 0], [0, 1, 1], [0, 1, 2]]\<rparr>)
      = Inr (\<lparr>nrows = 3, ncols = 5,
               rows = [[0, 0, 0, 0, 0], [0, 9, 9, 0, 0], [0, 9, 9, 0, 0]]\<rparr>,
             Some \<lparr>nrows = 3, ncols = 5,
               rows = [[0, 0, 0, 0, 0], [0, 1, 1, 0, 0], [0, 1, 2, 0, 0]]\<rparr>)
   \<and> correct_side \<lparr>nrows = 3, ncols = 3, rows = [[0, 0, 0], [0, 9, 9], [0, 9, 9]]\<rparr>
        (Some (NdArray \<lparr>nrows = 3, ncols = 3, rows = [[0, 0, 0], [0, 1, 1], [0, 1, 2]]\<rparr>))
      = Inr (\<lparr>nrows = 3, ncols = 3, rows = [[0, 0, 0], [9, 9, 0], [9, 9, 0]]\<rparr>,
             Some (NdArray \<lparr>nrows = 3, ncols = 3, rows = [[0, 0, 0], [1, 1, 0], [2, 1, 0]]\<rparr>))"
proof -
  have sh: "shape \<lparr>nrows = 3, ncols = 3, rows = [[0, 0, 0], [0, 1, 1], [0, 1, 2]]\<rparr>
      = shape \<lparr>nrows = 3, ncols = 3, rows = [[0, 0, 0], [0, 9, 9], [0, 9, 9]]\<rparr>"
    by (simp add: shape_def)
  have wfi: "wf_arr \<lparr>nrows = 3, ncols = 3, rows = [[0, 0, 0], [0, 9, 9], [0, 9, 9]]\<rparr>"
    by (simp add: wf_arr_def)
  have wfm: "wf_arr \<lparr>nrows = 3, ncols = 3, rows = [[0, 0, 0], [0, 1, 1], [0, 1, 2]]\<rparr>"
    by (simp add: wf_arr_def)
  have e1: "crop_roi (cv_pixels\<lparr>findContours := \<lambda>b. [[(1, 1), (1, 2), (2, 2), (2, 1)]]\<rparr>)
        \<lparr>nrows = 3, ncols = 3, rows = [[0, 0, 0], [0, 9, 9], [0, 9, 9]]\<rparr>
        (Some (NdArray \<lparr>nrows = 3, ncols = 3, rows = [[0, 0, 0], [0, 1, 1], [0, 1, 2]]\<rparr>))
      = Inr (\<lparr>nrows = 1, ncols = 1, rows = [[9]]\<rparr>, Some \<lparr>nrows = 1, ncols = 1, rows = [[1]]\<rparr>)"
    by code_simp
  have e2: "resize_to_height cv_pixels \<lparr>nrows = 3, ncols = 3, rows = [[0, 0, 0], [0, 9, 9], [0, 9, 9]]\<rparr> (6, 4)
        (Some \<lparr>nrows = 3, ncols = 3, rows = [[0, 0, 0], [0, 1, 1], [0, 1, 2]]\<rparr>)
      = Inr (\<lparr>nrows = 6, ncols = 6,
               rows = [[0, 0, 0, 0, 0, 0], [0, 0, 0, 0, 0, 0], [0, 0, 9, 9, 9, 9],
                       [0, 0, 9, 9, 9, 9], [0, 0, 9, 9, 9, 9], [0, 0, 9, 9, 9, 9]]\<rparr>,
             Some \<lparr>nrows = 6, ncols = 6,
               rows = [[0, 0, 0, 0, 0, 0], [0, 0, 0, 0, 0, 0], [0, 0, 1, 1, 1, 1],
                       [0, 0, 1, 1, 1, 1], [0, 0, 1, 1, 2, 2], [0, 0, 1, 1, 2, 2]]\<rparr>)"
    by code_simp
  have e3: "padresize_to_width cv_pixels \<lparr>nrows = 3, ncols = 3, rows = [[0, 0, 0], [0, 9, 9], [0, 9, 9]]\<rparr> (3, 5)
        (Some \<lparr>nrows = 3, ncols = 3, rows = [[0, 0, 0], [0, 1, 1], [0, 1, 2]]\<rparr>)
      = Inr (\<lparr>nrows = 3, ncols = 5,
               rows = [[0, 0, 0, 0, 0], [0, 9, 9, 0, 0], [0, 9, 9, 0, 0]]\<rparr>,
             Some \<lparr>nrows = 3, ncols = 5,
               rows = [[0, 0, 0, 0, 0], [0, 1, 1, 0, 0], [0, 1, 2, 0, 0]]\<rparr>)"
    by code_simp
  have e4: "correct_side \<lparr>nrows = 3, ncols = 3, rows = [[0, 0, 0], [0, 9, 9], [0, 9, 9]]\<rparr>
        (Some (NdArray \<lparr>nrows = 3, ncols = 3, rows = [[0, 0, 0], [0, 1, 1], [0, 1, 2]]\<rparr>))
      = Inr (\<lparr>nrows = 3, ncols = 3, rows = [[0, 0, 0], [9, 9, 0], [9, 9, 0]]\<rparr>,
             Some (NdArray \<lparr>nrows = 3, ncols = 3, rows = [[0, 0, 0], [1, 1, 0], [2, 1, 0]]\<rparr>))"
    by code_simp
  from transforms_keep_mask_in_step [OF sh wfi wfm] sh wfi wfm e1 e2 e3 e4
  show ?thesis
    by blast
qed

section \<open>Padding or resizing to the target width\<close>







section \<open>Linear windowing\<close>

lemma list_all2_map_px:
  assumes "\<And>p. R p (f p)"
  shows "list_all2 (list_all2 R) (rows a) (rows (map_px f a))"
  using assms by (simp add: map_px_def list.rel_map list.rel_refl)

lemma array_float_half: "array_float dt (1 / 2) = 1 / 2"
proof (cases dt)
  case IntDtype
  have "float64 (1 / 2) = 1 / 2" by code_simp
  with IntDtype show ?thesis by (simp add: array_float_def)
next
  case Float32Dtype
  have "round_to 24 (1 / 2) = 1 / 2" by code_simp
  with Float32Dtype show ?thesis by (simp add: array_float_def)
qed

lemma array_float_one: "array_float dt 1 = 1"
proof (cases dt)
  case IntDtype
  with float64_one show ?thesis by (simp add: array_float_def)
next
  case Float32Dtype
  have "round_to 24 1 = 1" by code_simp
  with Float32Dtype show ?thesis by (simp add: array_float_def)
qed

lemma representable_scalar_cast: "representable dt v \<Longrightarrow> scalar_cast dt v = v"
  by (cases dt) (simp_all add: representable_def scalar_cast_def array_float_def)

lemma representable_store_int:
  "representable dt (real_of_int n) \<Longrightarrow> store_int dt n = real_of_int n"
  by (cases dt) (simp_all add: representable_def store_int_def array_float_def)

lemma store_int_zero: "store_int dt 0 = 0"
  by (cases dt) (simp_all add: store_int_def round_to_def)

lemma store_float_of_int: "store_float dt (real_of_int n) = real_of_int n"
  by (cases dt) (simp_all add: store_float_def trunc_def)

lemma windowing_linear_map:
  assumes "float64 (center - 1 / 2) = c" and "float64 (width - 1) = w"
    and "float64 (w / 2) = hw" and "float64 (c - hw) = lo" and "float64 (c + hw) = hi"
    and "scalar_cast dt lo = lo" and "scalar_cast dt hi = hi"
    and "scalar_cast dt c = c" and "scalar_cast dt w = w"
    and "array_float dt (real_of_int (2 ^ bits - 1)) = real_of_int (2 ^ bits - 1)"
  shows "windowing_linear dt center width bits img =
     map_px (\<lambda>p.
           let p1 = (if p \<le> lo then store_int dt 0 else p);
               p2 = (if p > hi then store_int dt (2 ^ bits - 1) else p1)
           in if \<not> p \<le> lo \<and> \<not> p > hi
              then store_float dt
                     (array_float dt
                        (array_float dt (array_float dt (array_float dt (p2 - c) / w) + 1 / 2)
                         * real_of_int (2 ^ bits - 1)))
              else p2) img"
  by (simp only: windowing_linear_def Let_def assms)

text \<open>
  Claim C5, as the code has it. Let \<open>center' = center - 0.5\<close>, \<open>width' = width - 1\<close> and
  \<open>y_range = 2 ^ BitsStored - 1\<close>, for a window width of at least 1 and window parameters
  that the floating-point types at work represent: \<open>center'\<close>, \<open>width'\<close>, \<open>width' / 2\<close>,
  the two cuts and \<open>y_range\<close>. Then the linear branch of \<^verbatim>\<open>_windowing\<close> maps a pixel at or
  below \<open>center' - width'/2\<close> to 0 and a pixel above \<open>center' + width'/2\<close> to \<open>y_range\<close>.
  A pixel in between becomes the value of \<open>((p - center') / width' + 0.5) * y_range\<close> as
  the arithmetic of the array computes it, every operation rounded, to double precision
  for an integer array and to single precision for a \<^verbatim>\<open>float32\<close> array; the integer array
  stores it truncated toward zero. For a width above 1 a pixel exactly at
  \<open>center' + width'/2\<close> becomes \<open>y_range\<close>, through the interpolation formula.
\<close>

theorem windowing_linear_pixels:
  assumes w: "1 \<le> width"
    and rc: "representable dt (center - 1 / 2)"
    and rw: "representable dt (width - 1)"
    and rh: "representable dt ((width - 1) / 2)"
    and rlo: "representable dt (center - 1 / 2 - (width - 1) / 2)"
    and rhi: "representable dt (center - 1 / 2 + (width - 1) / 2)"
    and ry: "representable dt (real_of_int (2 ^ bits - 1))"
  shows "shape (windowing_linear dt center width bits img) = shape img
    \<and> list_all2 (list_all2 (\<lambda>p q.
          (p \<le> center - 1 / 2 - (width - 1) / 2 \<longrightarrow> q = 0)
        \<and> (p > center - 1 / 2 + (width - 1) / 2 \<longrightarrow> q = real_of_int (2 ^ bits - 1))
        \<and> (center - 1 / 2 - (width - 1) / 2 < p \<and> p \<le> center - 1 / 2 + (width - 1) / 2 \<longrightarrow>
             q = store_float dt
                   (array_float dt
                      (array_float dt
                         (array_float dt (array_float dt (p - (center - 1 / 2)) / (width - 1))
                          + 1 / 2)
                       * real_of_int (2 ^ bits - 1))))
        \<and> (1 < width \<and> p = center - 1 / 2 + (width - 1) / 2 \<longrightarrow>
             q = real_of_int (2 ^ bits - 1))))
        (rows img) (rows (windowing_linear dt center width bits img))"
proof
  show "shape (windowing_linear dt center width bits img) = shape img"
    by (simp add: windowing_linear_def Let_def shape_map_px)
next
  define c where "c = center - 1 / 2"
  define w' where "w' = width - 1"
  define lo where "lo = c - w' / 2"
  define hi where "hi = c + w' / 2"
  define y :: int where "y = 2 ^ bits - 1"
  define f where "f = (\<lambda>p.
           let p1 = (if p \<le> lo then store_int dt 0 else p);
               p2 = (if p > hi then store_int dt y else p1)
           in if \<not> p \<le> lo \<and> \<not> p > hi
              then store_float dt
                     (array_float dt
                        (array_float dt (array_float dt (array_float dt (p2 - c) / w') + 1 / 2)
                         * real_of_int y))
              else p2)"
  have w0: "0 \<le> w'" using w by (simp add: w'_def)
  have lohi: "lo \<le> hi" using w0 by (simp add: lo_def hi_def)
  have rc': "representable dt c" using rc by (simp only: c_def)
  have rw': "representable dt w'" using rw by (simp only: w'_def)
  have rh': "representable dt (w' / 2)" using rh by (simp only: w'_def)
  have rlo': "representable dt lo" using rlo by (simp only: lo_def c_def w'_def)
  have rhi': "representable dt hi" using rhi by (simp only: hi_def c_def w'_def)
  have ry': "representable dt (real_of_int y)" using ry by (simp only: y_def)
  have eq: "windowing_linear dt center width bits img = map_px f img"
    unfolding f_def y_def
  proof (rule windowing_linear_map)
    show "float64 (center - 1 / 2) = c" using rc' by (simp add: representable_def c_def)
    show "float64 (width - 1) = w'" using rw' by (simp add: representable_def w'_def)
    show "float64 (w' / 2) = w' / 2" using rh' by (simp add: representable_def)
    show "float64 (c - w' / 2) = lo" using rlo' by (simp add: representable_def lo_def)
    show "float64 (c + w' / 2) = hi" using rhi' by (simp add: representable_def hi_def)
    show "scalar_cast dt lo = lo" using rlo' by (rule representable_scalar_cast)
    show "scalar_cast dt hi = hi" using rhi' by (rule representable_scalar_cast)
    show "scalar_cast dt c = c" using rc' by (rule representable_scalar_cast)
    show "scalar_cast dt w' = w'" using rw' by (rule representable_scalar_cast)
    show "array_float dt (real_of_int (2 ^ bits - 1)) = real_of_int (2 ^ bits - 1)"
      using ry by (simp add: representable_def)
  qed
  have sy: "store_int dt y = real_of_int y"
    using ry' by (rule representable_store_int)
  have f1: "f p = 0" if "p \<le> lo" for p
  proof -
    from that lohi have "\<not> hi < p" by simp
    with that show ?thesis by (simp add: f_def store_int_zero)
  qed
  have f2: "f p = real_of_int y" if "hi < p" for p
  proof -
    from that lohi have "\<not> p \<le> lo" by simp
    with that show ?thesis by (simp add: f_def sy)
  qed
  have f3: "f p = store_float dt
                     (array_float dt
                        (array_float dt (array_float dt (array_float dt (p - c) / w') + 1 / 2)
                         * real_of_int y))" if "lo < p" "p \<le> hi" for p
  proof -
    from that have "\<not> p \<le> lo" "\<not> hi < p" by simp_all
    then show ?thesis by (simp add: f_def)
  qed
  have f4: "f p = real_of_int y" if "1 < width" "p = hi" for p
  proof -
    from that(1) have wp: "0 < w'" by (simp add: w'_def)
    then have "lo < hi" by (simp add: lo_def hi_def)
    with that(2) have b: "lo < p" "p \<le> hi" by simp_all
    have d: "p - c = w' / 2" using that(2) by (simp add: hi_def)
    have a1: "array_float dt (p - c) = w' / 2"
      using rh' by (simp only: d representable_def)
    have a2: "w' / 2 / w' = 1 / 2" using wp by simp
    have a3: "array_float dt (1 / 2 + 1 / 2) = 1"
      using array_float_one [of dt] by simp
    have a4: "array_float dt (1 * real_of_int y) = real_of_int y"
      using ry' by (simp add: representable_def)
    show ?thesis
      by (simp only: f3 [OF b] a1 a2 array_float_half a3 a4 store_float_of_int)
  qed
  have "list_all2 (list_all2 (\<lambda>p q.
          (p \<le> lo \<longrightarrow> q = 0)
        \<and> (p > hi \<longrightarrow> q = real_of_int y)
        \<and> (lo < p \<and> p \<le> hi \<longrightarrow>
             q = store_float dt
                   (array_float dt
                      (array_float dt (array_float dt (array_float dt (p - c) / w') + 1 / 2)
                       * real_of_int y)))
        \<and> (1 < width \<and> p = hi \<longrightarrow> q = real_of_int y)))
        (rows img) (rows (map_px f img))"
    by (rule list_all2_map_px) (simp add: f1 f2 f3 f4)
  then show "list_all2 (list_all2 (\<lambda>p q.
          (p \<le> center - 1 / 2 - (width - 1) / 2 \<longrightarrow> q = 0)
        \<and> (p > center - 1 / 2 + (width - 1) / 2 \<longrightarrow> q = real_of_int (2 ^ bits - 1))
        \<and> (center - 1 / 2 - (width - 1) / 2 < p \<and> p \<le> center - 1 / 2 + (width - 1) / 2 \<longrightarrow>
             q = store_float dt
                   (array_float dt
                      (array_float dt
                         (array_float dt (array_float dt (p - (center - 1 / 2)) / (width - 1))
                          + 1 / 2)
                       * real_of_int (2 ^ bits - 1))))
        \<and> (1 < width \<and> p = center - 1 / 2 + (width - 1) / 2 \<longrightarrow>
             q = real_of_int (2 ^ bits - 1))))
        (rows img) (rows (windowing_linear dt center width bits img))"
    by (simp only: eq [symmetric] lo_def hi_def c_def w'_def y_def)
qed

text \<open>
  The theorem at the centre 3.5 and the width 5 on 8 bits, where the cuts are at 1 and 5:
  the pixels 1 to 6 of an integer array and of a \<^verbatim>\<open>float32\<close> array.
\<close>

theorem windowing_linear_pixels_witness:
  "(1 :: real) \<le> 5
   \<and> representable IntDtype (7 / 2 - 1 / 2) \<and> representable IntDtype (5 - 1)
   \<and> representable IntDtype ((5 - 1) / 2)
   \<and> representable IntDtype (7 / 2 - 1 / 2 - (5 - 1) / 2)
   \<and> representable IntDtype (7 / 2 - 1 / 2 + (5 - 1) / 2)
   \<and> representable IntDtype (real_of_int (2 ^ 8 - 1))
   \<and> windowing_linear IntDtype (7 / 2) 5 8
        \<lparr>nrows = 1, ncols = 6, rows = [[1, 2, 3, 4, 5, 6]]\<rparr>
      = \<lparr>nrows = 1, ncols = 6, rows = [[0, 63, 127, 191, 255, 255]]\<rparr>
   \<and> shape (windowing_linear IntDtype (7 / 2) 5 8
        \<lparr>nrows = 1, ncols = 6, rows = [[1, 2, 3, 4, 5, 6]]\<rparr>) = (1, 6)
   \<and> windowing_linear Float32Dtype (7 / 2) 5 8
        \<lparr>nrows = 1, ncols = 6, rows = [[1, 2, 3, 4, 5, 6]]\<rparr>
      = \<lparr>nrows = 1, ncols = 6, rows = [[0, 255 / 4, 255 / 2, 765 / 4, 255, 255]]\<rparr>"
proof -
  have w: "(1 :: real) \<le> 5"
    by simp
  have r1: "representable IntDtype (7 / 2 - 1 / 2)" by code_simp
  have r2: "representable IntDtype (5 - 1)" by code_simp
  have r3: "representable IntDtype ((5 - 1) / 2)" by code_simp
  have r4: "representable IntDtype (7 / 2 - 1 / 2 - (5 - 1) / 2)" by code_simp
  have r5: "representable IntDtype (7 / 2 - 1 / 2 + (5 - 1) / 2)" by code_simp
  have r6: "representable IntDtype (real_of_int (2 ^ 8 - 1))" by code_simp
  have e1: "windowing_linear IntDtype (7 / 2) 5 8
        \<lparr>nrows = 1, ncols = 6, rows = [[1, 2, 3, 4, 5, 6]]\<rparr>
      = \<lparr>nrows = 1, ncols = 6, rows = [[0, 63, 127, 191, 255, 255]]\<rparr>"
    by code_simp
  have e2: "windowing_linear Float32Dtype (7 / 2) 5 8
        \<lparr>nrows = 1, ncols = 6, rows = [[1, 2, 3, 4, 5, 6]]\<rparr>
      = \<lparr>nrows = 1, ncols = 6, rows = [[0, 255 / 4, 255 / 2, 765 / 4, 255, 255]]\<rparr>"
    by code_simp
  from windowing_linear_pixels
    [OF w r1 r2 r3 r4 r5 r6, of "\<lparr>nrows = 1, ncols = 6, rows = [[1, 2, 3, 4, 5, 6]]\<rparr>"]
  have s: "shape (windowing_linear IntDtype (7 / 2) 5 8
        \<lparr>nrows = 1, ncols = 6, rows = [[1, 2, 3, 4, 5, 6]]\<rparr>) = (1, 6)"
    by (simp add: shape_def)
  from w r1 r2 r3 r4 r5 r6 e1 s e2 show ?thesis
    by (intro conjI)
qed

text \<open>
  The claim as written fails between the cuts, where the stored value is not the value
  of the formula. With the centre 1, the width 18 and 8 bits the formula maps the pixel
  4 to 180; doubles compute 179.99999999999997 and the integer array holds 179. With the
  centre 3 and the width 5 the formula maps the pixel 1 to 31.875 and the integer array
  holds 31. In a \<^verbatim>\<open>float32\<close> array, with the centre 2 and the width 4, the formula maps
  the pixel 1 to 85 and the array holds 84.99999237060547.
\<close>

theorem windowing_linear_rounds_example:
  "windowing_linear IntDtype 1 18 8 \<lparr>nrows = 1, ncols = 1, rows = [[4]]\<rparr>
     = \<lparr>nrows = 1, ncols = 1, rows = [[179]]\<rparr>
   \<and> 1 - 1 / 2 - (18 - 1) / 2 < (4 :: real) \<and> (4 :: real) < 1 - 1 / 2 + (18 - 1) / 2
   \<and> spec_linear_value 1 18 (2 ^ 8 - 1) 4 = 180
   \<and> windowing_linear IntDtype 3 5 8 \<lparr>nrows = 1, ncols = 1, rows = [[1]]\<rparr>
     = \<lparr>nrows = 1, ncols = 1, rows = [[31]]\<rparr>
   \<and> 3 - 1 / 2 - (5 - 1) / 2 < (1 :: real) \<and> (1 :: real) < 3 - 1 / 2 + (5 - 1) / 2
   \<and> spec_linear_value 3 5 (2 ^ 8 - 1) 1 = 255 / 8
   \<and> windowing_linear Float32Dtype 2 4 8 \<lparr>nrows = 1, ncols = 1, rows = [[1]]\<rparr>
     = \<lparr>nrows = 1, ncols = 1, rows = [[11141119 / 131072]]\<rparr>
   \<and> 2 - 1 / 2 - (4 - 1) / 2 < (1 :: real) \<and> (1 :: real) < 2 - 1 / 2 + (4 - 1) / 2
   \<and> spec_linear_value 2 4 (2 ^ 8 - 1) 1 = 85"
  by code_simp

section \<open>The mask compositor\<close>

lemma astype_uint8_div_255:
  assumes "0 \<le> p"
  shows "astype_uint8 (real_of_int p / 255) = (p div 255) mod 256"
proof -
  have "0 \<le> real_of_int p / 255" using assms by simp
  then have "trunc (real_of_int p / 255) = \<lfloor>real_of_int p / 255\<rfloor>"
    by (rule trunc_nonneg)
  also have "\<dots> = p div 255"
    using floor_divide_of_int_eq [of p 255, where ?'a = real] by simp
  finally show ?thesis
    by (simp add: astype_uint8_def)
qed

lemma wf_arr_nth:
  assumes "wf_arr a" "y < nrows a"
  shows "length (rows a ! y) = ncols a"
  using assms by (simp add: wf_arr_def list_all_length)

lemma map_px_nth:
  assumes "wf_arr a" "y < nrows a" "x < ncols a"
  shows "rows (map_px f a) ! y ! x = f (rows a ! y ! x)"
proof -
  from assms have "y < length (rows a)" "x < length (rows a ! y)"
    by (simp_all add: wf_arr_def list_all_length)
  then show ?thesis by (simp add: map_px_def)
qed

lemma wf_map_px: "wf_arr a \<Longrightarrow> wf_arr (map_px f a)"
  by (simp add: wf_arr_def map_px_def list_all_iff)

lemma iadd_same_shape:
  assumes "shape b = shape a"
  shows "\<exists>L. iadd (NdArray a) b = Inr (NdArray L) \<and> wf_arr L \<and> shape L = shape a
           \<and> (\<forall>y<nrows a. \<forall>x<ncols a. rows L ! y ! x = rows a ! y ! x + rows b ! y ! x)"
proof -
  let ?L = "\<lparr>nrows = nrows a, ncols = ncols a,
              rows = map (\<lambda>y. map (\<lambda>x. rows a ! y ! x
                                      + rows b ! (if nrows b = 1 then 0 else y)
                                               ! (if ncols b = 1 then 0 else x))
                               [0..<ncols a]) [0..<nrows a]\<rparr>"
  have nb: "nrows b = nrows a" "ncols b = ncols a"
    using assms by (simp_all add: shape_def)
  then have i: "iadd (NdArray a) b = Inr (NdArray ?L)"
    by simp
  have wf: "wf_arr ?L"
    by (simp add: wf_arr_def list_all_iff)
  have sh: "shape ?L = shape a"
    by (simp add: shape_def)
  have px: "rows ?L ! y ! x = rows a ! y ! x + rows b ! y ! x"
    if "y < nrows a" "x < ncols a" for y x
    using that nb by auto
  from i wf sh px show ?thesis
    by blast
qed

lemma combine_loop_array:
  assumes "wf_arr a"
    and "\<forall>r\<in>set rs. \<exists>m. dec (mask_fname r) = Inr m \<and> wf_arr m \<and> shape m = shape a"
  shows "\<exists>L. combine_loop dec rs (NdArray a) = Inr (NdArray L) \<and> wf_arr L \<and> shape L = shape a
           \<and> (\<forall>y<nrows a. \<forall>x<ncols a.
                 rows L ! y ! x
                   = rows a ! y ! x
                     + (\<Sum>r\<leftarrow>rs. astype_uint8
                           (real_of_int (rows (projr (dec (mask_fname r))) ! y ! x) / 255)
                         * pathology r))"
  using assms
proof (induction rs arbitrary: a)
  case Nil
  then show ?case by simp
next
  case (Cons r rs)
  from Cons.prems(2) obtain m where m: "dec (mask_fname r) = Inr m" "wf_arr m" "shape m = shape a"
    by auto
  let ?b = "map_px (\<lambda>v. v * pathology r) (mask_px m)"
  have shb: "shape ?b = shape a"
    using m(3) by (simp add: shape_map_px mask_px_def)
  from iadd_same_shape [OF shb] obtain a' where a':
    "iadd (NdArray a) ?b = Inr (NdArray a')" "wf_arr a'" "shape a' = shape a"
    "\<forall>y<nrows a. \<forall>x<ncols a. rows a' ! y ! x = rows a ! y ! x + rows ?b ! y ! x"
    by blast
  have step: "combine_loop dec (r # rs) (NdArray a) = combine_loop dec rs (NdArray a')"
    using m(1) a'(1) by simp
  have "\<forall>r\<in>set rs. \<exists>m. dec (mask_fname r) = Inr m \<and> wf_arr m \<and> shape m = shape a'"
    using Cons.prems(2) a'(3) by simp
  from Cons.IH [OF a'(2) this] obtain L where L:
    "combine_loop dec rs (NdArray a') = Inr (NdArray L)" "wf_arr L" "shape L = shape a'"
    "\<forall>y<nrows a'. \<forall>x<ncols a'.
        rows L ! y ! x
          = rows a' ! y ! x
            + (\<Sum>r\<leftarrow>rs. astype_uint8
                  (real_of_int (rows (projr (dec (mask_fname r))) ! y ! x) / 255)
                * pathology r)"
    by blast
  have dims: "nrows a' = nrows a" "ncols a' = ncols a" "nrows m = nrows a" "ncols m = ncols a"
    using a'(3) m(3) by (simp_all add: shape_def)
  have px: "rows L ! y ! x
      = rows a ! y ! x
        + (\<Sum>r\<leftarrow>r # rs. astype_uint8
              (real_of_int (rows (projr (dec (mask_fname r))) ! y ! x) / 255)
            * pathology r)"
    if yx: "y < nrows a" "x < ncols a" for y x
  proof -
    have wfm': "wf_arr (mask_px m)"
      using m(2) by (simp add: mask_px_def wf_map_px)
    have "rows ?b ! y ! x = rows (mask_px m) ! y ! x * pathology r"
      using wfm' yx dims by (intro map_px_nth) (simp_all add: mask_px_def map_px_def)
    also have "rows (mask_px m) ! y ! x = astype_uint8 (real_of_int (rows m ! y ! x) / 255)"
      unfolding mask_px_def using m(2) yx dims by (intro map_px_nth) simp_all
    finally have b: "rows ?b ! y ! x
        = astype_uint8 (real_of_int (rows (projr (dec (mask_fname r))) ! y ! x) / 255)
          * pathology r"
      using m(1) by simp
    from L(4) yx dims have "rows L ! y ! x
        = rows a' ! y ! x
          + (\<Sum>r\<leftarrow>rs. astype_uint8
                (real_of_int (rows (projr (dec (mask_fname r))) ! y ! x) / 255)
              * pathology r)"
      by simp
    with a'(4) yx b show ?thesis by simp
  qed
  from step L(1-3) a'(3) px show ?case
    by auto
qed

text \<open>
  Claim C7, as the code has it. For an image with at least one metadata row whose mask
  files decode to arrays of one shape, \<^verbatim>\<open>_combine_masks\<close> returns an array of that shape
  in which every pixel is the sum, over the rows of the image, of the mask pixel divided
  by 255, truncated and taken as \<^verbatim>\<open>uint8\<close>, times the pathology code of the row. A mask
  pixel of 255 counts 1 and a mask pixel of 0 counts 0, so two masks of the codes 1 and
  2 that are both 255 at a pixel give 3 there; a mask pixel between 1 and 254 counts 0,
  and in general a non-negative pixel \<open>p\<close> counts \<open>(p div 255) mod 256\<close>.
\<close>

theorem combine_masks_sums_coded_masks:
  assumes rs: "image_info df path \<noteq> []"
    and dec: "\<forall>r\<in>set (image_info df path).
                \<exists>m. dicom_open (mask_fname r) = Inr m \<and> wf_arr m \<and> shape m = (h, w)"
  shows "(\<exists>L. combine_masks dicom_open df path = Inr (NdArray L) \<and> wf_arr L \<and> shape L = (h, w)
            \<and> (\<forall>y<h. \<forall>x<w.
                  rows L ! y ! x
                    = (\<Sum>r\<leftarrow>image_info df path.
                         astype_uint8
                           (real_of_int (rows (projr (dicom_open (mask_fname r))) ! y ! x) / 255)
                         * pathology r)))
     \<and> astype_uint8 (real_of_int 0 / 255) = 0
     \<and> astype_uint8 (real_of_int 255 / 255) = 1
     \<and> (\<forall>p. 0 \<le> p \<and> p < 255 \<longrightarrow> astype_uint8 (real_of_int p / 255) = 0)
     \<and> (\<forall>p. 0 \<le> p \<longrightarrow> astype_uint8 (real_of_int p / 255) = (p div 255) mod 256)"
proof (intro conjI allI impI)
  from rs obtain r rs' where eq: "image_info df path = r # rs'"
    by (cases "image_info df path") auto
  from dec eq obtain m where m: "dicom_open (mask_fname r) = Inr m" "wf_arr m" "shape m = (h, w)"
    by auto
  let ?a = "map_px (\<lambda>v. 0 + v) (map_px (\<lambda>v. v * pathology r) (mask_px m))"
  have wfa: "wf_arr ?a"
    using m(2) by (simp add: mask_px_def wf_map_px)
  have sha: "shape ?a = (h, w)"
    using m(3) by (simp add: shape_map_px mask_px_def)
  have dims: "nrows ?a = h" "ncols ?a = w" "nrows m = h" "ncols m = w"
    using sha m(3) by (simp_all add: shape_def)
  have step: "combine_masks dicom_open df path = combine_loop dicom_open rs' (NdArray ?a)"
    by (simp only: combine_masks_def eq combine_loop.simps m(1) bind_err_Inr iadd.simps)
  have "\<forall>r\<in>set rs'. \<exists>m. dicom_open (mask_fname r) = Inr m \<and> wf_arr m \<and> shape m = shape ?a"
    using dec eq sha by simp
  from combine_loop_array [OF wfa this] obtain L where L:
    "combine_loop dicom_open rs' (NdArray ?a) = Inr (NdArray L)" "wf_arr L" "shape L = shape ?a"
    "\<forall>y<nrows ?a. \<forall>x<ncols ?a.
        rows L ! y ! x
          = rows ?a ! y ! x
            + (\<Sum>r\<leftarrow>rs'. astype_uint8
                  (real_of_int (rows (projr (dicom_open (mask_fname r))) ! y ! x) / 255)
                * pathology r)"
    by blast
  have px: "rows L ! y ! x
      = (\<Sum>r\<leftarrow>image_info df path.
           astype_uint8 (real_of_int (rows (projr (dicom_open (mask_fname r))) ! y ! x) / 255)
           * pathology r)"
    if yx: "y < h" "x < w" for y x
  proof -
    have wf1: "wf_arr (mask_px m)"
      using m(2) by (simp add: mask_px_def wf_map_px)
    have wf2: "wf_arr (map_px (\<lambda>v. v * pathology r) (mask_px m))"
      using wf1 by (rule wf_map_px)
    have "rows ?a ! y ! x = 0 + rows (map_px (\<lambda>v. v * pathology r) (mask_px m)) ! y ! x"
      using wf2 yx dims by (intro map_px_nth) (simp_all add: mask_px_def map_px_def)
    also have "rows (map_px (\<lambda>v. v * pathology r) (mask_px m)) ! y ! x
        = rows (mask_px m) ! y ! x * pathology r"
      using wf1 yx dims by (intro map_px_nth) (simp_all add: mask_px_def map_px_def)
    also have "rows (mask_px m) ! y ! x = astype_uint8 (real_of_int (rows m ! y ! x) / 255)"
      unfolding mask_px_def using m(2) yx dims by (intro map_px_nth) simp_all
    finally have a: "rows ?a ! y ! x
        = astype_uint8 (real_of_int (rows (projr (dicom_open (mask_fname r))) ! y ! x) / 255)
          * pathology r"
      using m(1) by simp
    from L(4) yx dims have "rows L ! y ! x
        = rows ?a ! y ! x
          + (\<Sum>r\<leftarrow>rs'. astype_uint8
                (real_of_int (rows (projr (dicom_open (mask_fname r))) ! y ! x) / 255)
              * pathology r)"
      by simp
    with a eq show ?thesis by simp
  qed
  from step L(1-3) sha px
  show "\<exists>L. combine_masks dicom_open df path = Inr (NdArray L) \<and> wf_arr L \<and> shape L = (h, w)
            \<and> (\<forall>y<h. \<forall>x<w.
                  rows L ! y ! x
                    = (\<Sum>r\<leftarrow>image_info df path.
                         astype_uint8
                           (real_of_int (rows (projr (dicom_open (mask_fname r))) ! y ! x) / 255)
                         * pathology r))"
    by auto
next
  show "astype_uint8 (real_of_int 0 / 255) = 0"
    by (simp add: astype_uint8_def trunc_def)
next
  show "astype_uint8 (real_of_int 255 / 255) = 1"
    by (simp add: astype_uint8_def trunc_def)
next
  fix p :: int
  assume "0 \<le> p \<and> p < 255"
  then show "astype_uint8 (real_of_int p / 255) = 0"
    by (simp add: astype_uint8_div_255)
next
  fix p :: int
  assume "0 \<le> p"
  then show "astype_uint8 (real_of_int p / 255) = (p div 255) mod 256"
    by (rule astype_uint8_div_255)
qed

text \<open>
  The theorem at the example table: the benign and the malignant mask are both 255 at
  the first pixel, which gets the value 3.
\<close>

theorem combine_masks_sums_coded_masks_witness:
  "image_info example_df ''full.dcm'' \<noteq> []
   \<and> (\<exists>L. combine_masks example_decoder example_df ''full.dcm'' = Inr (NdArray L)
          \<and> shape L = (2, 2) \<and> rows L ! 0 ! 0 = 3)"
proof -
  have info: "image_info example_df ''full.dcm'' = example_df"
    by (simp add: image_info_def example_df_def)
  have rs: "image_info example_df ''full.dcm'' \<noteq> []"
    by (simp add: info) (simp add: example_df_def)
  have dec: "\<forall>r\<in>set (image_info example_df ''full.dcm'').
      \<exists>m. example_decoder (mask_fname r) = Inr m \<and> wf_arr m \<and> shape m = (2, 2)"
    by (simp add: info) (simp add: example_df_def example_decoder_def wf_arr_def shape_def)
  from combine_masks_sums_coded_masks [OF rs dec] obtain L where L:
    "combine_masks example_decoder example_df ''full.dcm'' = Inr (NdArray L)" "shape L = (2, 2)"
    "\<forall>y<2. \<forall>x<2.
        rows L ! y ! x
          = (\<Sum>r\<leftarrow>image_info example_df ''full.dcm''.
               astype_uint8
                 (real_of_int (rows (projr (example_decoder (mask_fname r))) ! y ! x) / 255)
               * pathology r)"
    by blast
  from L(3) have "rows L ! 0 ! 0
      = (\<Sum>r\<leftarrow>image_info example_df ''full.dcm''.
           astype_uint8
             (real_of_int (rows (projr (example_decoder (mask_fname r))) ! 0 ! 0) / 255)
           * pathology r)"
    by simp
  also have "\<dots> = 3"
    by (simp add: info) (simp add: example_df_def example_decoder_def astype_uint8_def trunc_def)
  finally have "rows L ! 0 ! 0 = 3" .
  with rs L(1,2) show ?thesis
    by blast
qed

text \<open>
  The claim as written fails on a mask pixel that is neither 0 nor 255: the benign mask
  of the example is 128 at the second pixel of the first row, where no other mask is set,
  and the combined label there is 0, not 1.
\<close>

theorem combine_masks_half_intensity_example:
  "combine_masks example_decoder example_df ''full.dcm''
     = Inr (NdArray \<lparr>nrows = 2, ncols = 2, rows = [[3, 0], [0, 2]]\<rparr>)
   \<and> example_decoder ''benign.dcm'' = Inr \<lparr>nrows = 2, ncols = 2, rows = [[255, 128], [0, 0]]\<rparr>
   \<and> example_decoder ''malignant.dcm'' = Inr \<lparr>nrows = 2, ncols = 2, rows = [[255, 0], [0, 255]]\<rparr>"
  by code_simp


section \<open>An image without foreground\<close>

lemma amax_Inl: "amax a = Inl e \<Longrightarrow> e = ValueError"
  by (auto simp: amax_def split: list.splits)

lemma binarize_Inl: "binarize img = Inl e \<Longrightarrow> e = ValueError"
  by (auto simp: binarize_def bind_err_eq_Inl dest: amax_Inl)

lemma binarize_Inr: "binarize img = Inr b \<Longrightarrow> \<exists>b'. b = Uint8 b'"
  by (auto simp: binarize_def bind_err_eq_Inr)

lemma find_contours_Inl: "find_contours cv (Uint8 b) = Inl e \<Longrightarrow> e = ValueError"
  by (auto simp: find_contours_def split: list.splits)

lemma bounding_box_Inl: "bounding_box c = Inl e \<Longrightarrow> e = ValueError"
  by (auto simp: bounding_box_def split: list.splits)

lemma all_zero_nth:
  assumes "all_zero b" "wf_arr b" "y < nrows b" "x < ncols b"
  shows "rows b ! y ! x = 0"
proof -
  from assms have "y < length (rows b)" "x < length (rows b ! y)"
    by (simp_all add: wf_arr_def list_all_length)
  with assms(1) show ?thesis
    by (simp add: all_zero_def list_all_length)
qed

lemma findContours_all_zero:
  assumes "all_zero b" "wf_arr b" "contours_on_foreground cv b"
  shows "findContours cv b = []"
proof (rule ccontr)
  assume "findContours cv b \<noteq> []"
  then obtain c where c: "c \<in> set (findContours cv b)"
    by (cases "findContours cv b") auto
  with assms(3) have ne: "c \<noteq> []"
    and pts: "\<forall>(x, y)\<in>set c. y < nrows b \<and> x < ncols b \<and> rows b ! y ! x \<noteq> 0"
    by (auto simp: contours_on_foreground_def list_all_iff)
  from ne obtain x y where "(x, y) \<in> set c"
    by (cases c) auto
  with pts have "y < nrows b" "x < ncols b" "rows b ! y ! x \<noteq> 0"
    by auto
  with all_zero_nth [OF assms(1,2)] show False
    by simp
qed

lemma binarize_all_zero:
  assumes "all_zero img" "wf_arr img" "binarize img = Inr (Uint8 b)"
  shows "all_zero b \<and> wf_arr b"
proof -
  from assms(3) obtain m where m: "amax img = Inr m"
    and b: "b = map_px (\<lambda>p. if real_of_int p > real_of_int m * (5 / 100) then 1 else 0) img"
    by (auto simp: binarize_def bind_err_eq_Inr)
  from m have "m \<in> set (concat (rows img))"
    by (simp add: amax_iff)
  with assms(1) have m0: "m = 0"
    by (auto simp: all_zero_def list_all_iff)
  from assms(1) have "all_zero b"
    unfolding b m0 by (auto simp: all_zero_def map_px_def list_all_iff)
  moreover from assms(2) have "wf_arr b"
    unfolding b by (rule wf_map_px)
  ultimately show ?thesis ..
qed

lemma pixel_contours_on_foreground: "contours_on_foreground cv_pixels b"
  by (auto simp: contours_on_foreground_def cv_pixels_def pixel_contours_def list_all_iff
      split: if_splits)

text \<open>
  Claim C9, as the code has it. When every contour \<^verbatim>\<open>cv2.findContours\<close> returns runs over
  nonzero pixels of its input, the binarisation of an all-zero image has no contour:
  \<^verbatim>\<open>_find_contours\<close> fails on it with the \<^verbatim>\<open>ValueError\<close> that \<^verbatim>\<open>max\<close> raises on an empty
  sequence. No region is returned; \<^verbatim>\<open>_crop_roi\<close> and \<^verbatim>\<open>_remove_background\<close> end with the
  same exception and crop nothing.
\<close>

theorem all_zero_image_raises_ValueError:
  assumes z: "all_zero img" and wf: "wf_arr img" and cv: "\<forall>b. contours_on_foreground cv b"
  shows "bind_err (binarize img) (find_contours cv) = Inl ValueError
     \<and> crop_roi cv img lab = Inl ValueError
     \<and> remove_background cv bits img = Inl ValueError"
proof -
  have b: "bind_err (binarize img) (find_contours cv) = Inl ValueError"
  proof (cases "binarize img")
    case (Inl e)
    with binarize_Inl [of img e] show ?thesis by simp
  next
    case (Inr bin_img)
    from binarize_Inr [OF Inr] obtain b where bin: "bin_img = Uint8 b" ..
    from binarize_all_zero [OF z wf Inr [unfolded bin]] have "all_zero b" "wf_arr b"
      by simp_all
    moreover from cv have "contours_on_foreground cv b" ..
    ultimately have "findContours cv b = []" by (rule findContours_all_zero)
    with Inr bin show ?thesis by (simp add: find_contours_def)
  qed
  have c: "crop_roi cv img lab = Inl ValueError"
    using b by (cases "binarize img") (auto simp: crop_roi_def bind_err_eq_Inl)
  have d: "remove_background cv bits img = Inl ValueError"
    using b by (cases "binarize img") (auto simp: remove_background_def bind_err_eq_Inl)
  from b c d show ?thesis by simp
qed

text \<open>The theorem at the 2 by 2 image of zeros.\<close>

theorem all_zero_image_raises_ValueError_witness:
  "all_zero \<lparr>nrows = 2, ncols = 2, rows = [[0, 0], [0, 0]]\<rparr>
   \<and> wf_arr \<lparr>nrows = 2, ncols = 2, rows = [[0, 0], [0, 0 :: int]]\<rparr>
   \<and> bind_err (binarize \<lparr>nrows = 2, ncols = 2, rows = [[0, 0], [0, 0]]\<rparr>)
         (find_contours cv_pixels) = Inl ValueError
   \<and> crop_roi cv_pixels \<lparr>nrows = 2, ncols = 2, rows = [[0, 0], [0, 0]]\<rparr> None = Inl ValueError
   \<and> remove_background cv_pixels 16 \<lparr>nrows = 2, ncols = 2, rows = [[0, 0], [0, 0]]\<rparr>
       = Inl ValueError"
proof -
  have z: "all_zero \<lparr>nrows = 2, ncols = 2, rows = [[0, 0], [0, 0]]\<rparr>"
    by (simp add: all_zero_def)
  have wf: "wf_arr \<lparr>nrows = 2, ncols = 2, rows = [[0, 0], [0, 0 :: int]]\<rparr>"
    by (simp add: wf_arr_def)
  have cv: "\<forall>b. contours_on_foreground cv_pixels b"
    by (simp add: pixel_contours_on_foreground)
  from all_zero_image_raises_ValueError [OF z wf cv, of None 16] z wf show ?thesis
    by simp
qed

text \<open>
  The claim as written names an error kind the code does not have: on the image of zeros
  the exception is \<^verbatim>\<open>ValueError\<close>, not \<open>DegenerateRegion\<close>.
\<close>

theorem all_zero_image_error_kind_example:
  "bind_err (binarize \<lparr>nrows = 2, ncols = 2, rows = [[0, 0], [0, 0]]\<rparr>)
         (find_contours cv_pixels) = Inl ValueError
   \<and> bind_err (binarize \<lparr>nrows = 2, ncols = 2, rows = [[0, 0], [0, 0]]\<rparr>)
         (find_contours cv_pixels) \<noteq> Inl DegenerateRegion
   \<and> crop_roi cv_pixels \<lparr>nrows = 2, ncols = 2, rows = [[0, 0], [0, 0]]\<rparr> None = Inl ValueError
   \<and> crop_roi cv_pixels \<lparr>nrows = 2, ncols = 2, rows = [[0, 0], [0, 0]]\<rparr> None
       \<noteq> Inl DegenerateRegion"
  by code_simp

section \<open>An image without a metadata row\<close>

lemma remove_background_Inl: "remove_background cv bits img = Inl e \<Longrightarrow> e = ValueError"
  by (auto simp: remove_background_def bind_err_eq_Inl
      dest: binarize_Inl find_contours_Inl dest!: binarize_Inr)

lemma crop_roi_PyInt:
  "crop_roi cv img (Some (PyInt n)) = Inl ValueError
   \<or> crop_roi cv img (Some (PyInt n)) = Inl TypeError"
proof (cases "binarize img")
  case (Inl e)
  with binarize_Inl [of img e] show ?thesis
    by (simp add: crop_roi_def)
next
  case b: (Inr bin_img)
  from binarize_Inr [OF b] obtain b' where bin: "bin_img = Uint8 b'" ..
  show ?thesis
  proof (cases "find_contours cv bin_img")
    case (Inl e)
    with find_contours_Inl [of cv b' e] b bin show ?thesis
      by (simp add: crop_roi_def)
  next
    case c: (Inr contour)
    show ?thesis
    proof (cases "bounding_box contour")
      case (Inl e)
      with bounding_box_Inl [of contour e] b c show ?thesis
        by (simp add: crop_roi_def)
    next
      case (Inr box)
      with b c show ?thesis
        by (cases box) (simp add: crop_roi_def)
    qed
  qed
qed

lemma correct_side_PyInt:
  "correct_side img (Some (PyInt n))
     = (if right_col_sum img < left_col_sum img then Inr (img, Some (PyInt n))
        else Inl ValueError)"
  by (simp add: correct_side_def)

text \<open>
  Claim C10, as the code has it. For an image path that no row of the metadata table
  refers to, \<^verbatim>\<open>_combine_masks\<close> raises nothing: its loop runs over no rows and it returns
  the integer 0 it started with. The pipeline goes on with that value as the mask and
  fails later, for every image the path decodes to: \<^verbatim>\<open>_correct_side\<close> raises
  \<^verbatim>\<open>ValueError\<close> when it flips (\<^verbatim>\<open>np.fliplr\<close> of a scalar), and otherwise the image gets as
  far as \<^verbatim>\<open>_crop_roi\<close> at most, which raises \<^verbatim>\<open>TypeError\<close> on subscripting the integer
  unless the contour search has raised \<^verbatim>\<open>ValueError\<close> before. A failure of the decoder
  on the image itself ends the pipeline first.
\<close>

theorem no_metadata_row_gives_scalar_labels:
  assumes none: "image_info df path = []"
  shows "combine_masks dicom_open df path = Inr (PyInt 0)
     \<and> (\<forall>e. dicom_open path = Inl e \<longrightarrow>
          preprocess_image cv dicom_open df bits image_size path use_hist_eq = Inl e)
     \<and> (\<forall>img. dicom_open path = Inr img \<longrightarrow>
          preprocess_image cv dicom_open df bits image_size path use_hist_eq = Inl ValueError
          \<or> preprocess_image cv dicom_open df bits image_size path use_hist_eq = Inl TypeError)
     \<and> (\<forall>img. dicom_open path = Inr img \<and> left_col_sum img \<le> right_col_sum img \<longrightarrow>
          preprocess_image cv dicom_open df bits image_size path use_hist_eq = Inl ValueError)"
proof (intro conjI allI impI)
  show cm: "combine_masks dicom_open df path = Inr (PyInt 0)"
    using none by (simp add: combine_masks_def)
  {
    fix e assume "dicom_open path = Inl e"
    then show "preprocess_image cv dicom_open df bits image_size path use_hist_eq = Inl e"
      by (simp add: preprocess_image_def)
  }
  {
    fix img assume d: "dicom_open path = Inr img"
    show "preprocess_image cv dicom_open df bits image_size path use_hist_eq = Inl ValueError
          \<or> preprocess_image cv dicom_open df bits image_size path use_hist_eq = Inl TypeError"
    proof (cases "right_col_sum img < left_col_sum img")
      case False
      with d cm show ?thesis
        by (simp add: preprocess_image_def correct_side_PyInt)
    next
      case True
      show ?thesis
      proof (cases "remove_background cv bits img")
        case (Inl e)
        with remove_background_Inl [of cv bits img e] d cm True show ?thesis
          by (simp add: preprocess_image_def correct_side_PyInt)
      next
        case (Inr img2)
        with crop_roi_PyInt [of cv img2 0] d cm True show ?thesis
          by (auto simp: preprocess_image_def correct_side_PyInt)
      qed
    qed
  }
  {
    fix img assume "dicom_open path = Inr img \<and> left_col_sum img \<le> right_col_sum img"
    with cm show "preprocess_image cv dicom_open df bits image_size path use_hist_eq
        = Inl ValueError"
      by (simp add: preprocess_image_def correct_side_PyInt)
  }
qed

text \<open>The theorem at an image of the example decoder that the example table has no row for.\<close>

theorem no_metadata_row_gives_scalar_labels_witness:
  "image_info example_df ''other_left.dcm'' = []
   \<and> combine_masks example_decoder example_df ''other_left.dcm'' = Inr (PyInt 0)
   \<and> (preprocess_image cv_pixels example_decoder example_df 16 (4, 2) ''other_left.dcm'' False
         = Inl ValueError
       \<or> preprocess_image cv_pixels example_decoder example_df 16 (4, 2) ''other_left.dcm'' False
         = Inl TypeError)"
proof -
  have none: "image_info example_df ''other_left.dcm'' = []"
    by (simp add: image_info_def example_df_def)
  have d: "example_decoder ''other_left.dcm''
      = Inr \<lparr>nrows = 2, ncols = 2, rows = [[1000, 0], [0, 0]]\<rparr>"
    by (simp add: example_decoder_def)
  from no_metadata_row_gives_scalar_labels
    [OF none, of example_decoder cv_pixels 16 "(4, 2)" False] none d
  show ?thesis
    by blast
qed

text \<open>
  The claim as written names an error the mask composition does not raise: for both
  images without a row it returns the integer 0, and the pipeline ends with
  \<^verbatim>\<open>TypeError\<close> for the first and \<^verbatim>\<open>ValueError\<close> for the second.
\<close>

theorem no_metadata_row_no_mismatch_example:
  "image_info example_df ''other_left.dcm'' = []
   \<and> combine_masks example_decoder example_df ''other_left.dcm'' = Inr (PyInt 0)
   \<and> preprocess_image cv_pixels example_decoder example_df 16 (4, 2) ''other_left.dcm'' False
       = Inl TypeError
   \<and> image_info example_df ''other_right.dcm'' = []
   \<and> combine_masks example_decoder example_df ''other_right.dcm'' = Inr (PyInt 0)
   \<and> preprocess_image cv_pixels example_decoder example_df 16 (4, 2) ''other_right.dcm'' False
       = Inl ValueError"
  by code_simp

section \<open>Background removal multiplies the foreground by 255\<close>

text \<open>
  Whatever OpenCV computes, a pixel \<open>p\<close> under the drawn mask comes out of
  \<^verbatim>\<open>_remove_background\<close> as \<open>(p * 255) mod 2 ^ bits\<close>, and a pixel outside as 0.
\<close>

lemma binarize_shape: "binarize img = Inr b \<Longrightarrow> shape (pixels b) = shape img"
  by (auto simp: binarize_def bind_err_eq_Inr shape_map_px)

lemma remove_background_pixels:
  assumes r: "remove_background cv bits img = Inr out" and wf: "wf_arr img"
  shows "\<exists>c. shape out = shape img
           \<and> (\<forall>y<nrows img. \<forall>x<ncols img.
                 rows out ! y ! x
                   = (rows img ! y ! x * (if filled cv c y x then 255 else 0)) mod 2 ^ bits)"
proof -
  from r obtain b c where b: "binarize img = Inr b"
    and out: "out = mul_wrap bits img (drawContours_filled cv (shape (pixels b)) c)"
    by (auto simp: remove_background_def bind_err_eq_Inr)
  from binarize_shape [OF b] have sb: "shape (pixels b) = (nrows img, ncols img)"
    by (simp add: shape_def)
  have sh: "shape out = shape img"
    by (simp add: out mul_wrap_def shape_def)
  have px: "rows out ! y ! x
      = (rows img ! y ! x * (if filled cv c y x then 255 else 0)) mod 2 ^ bits"
    if yx: "y < nrows img" "x < ncols img" for y x
  proof -
    from wf yx have ly: "y < length (rows img)" and lx: "x < length (rows img ! y)"
      by (simp_all add: wf_arr_def list_all_length)
    from wf have len: "length (rows img) = nrows img"
      by (simp add: wf_arr_def)
    show ?thesis
      using yx ly lx len by (simp add: out mul_wrap_def drawContours_filled_def sb)
  qed
  from sh px show ?thesis by blast
qed

text \<open>
  Claim C4 at a 3 by 3 image of 16 bits with one foreground pixel of the value 1000 in
  the middle: the call the pipelines make returns 58392 there, which is 1000 times 255
  modulo 65536, not 1000. The branch for \<^verbatim>\<open>remove_wlines=True\<close> divides the mask by its
  maximum and returns the pixel as it was.
\<close>

theorem remove_background_scales_foreground_example:
  "remove_background cv_pixels 16 \<lparr>nrows = 3, ncols = 3, rows = [[0, 0, 0], [0, 1000, 0], [0, 0, 0]]\<rparr>
     = Inr \<lparr>nrows = 3, ncols = 3, rows = [[0, 0, 0], [0, 58392, 0], [0, 0, 0]]\<rparr>
   \<and> (1000 * 255) mod 2 ^ 16 = (58392 :: int)
   \<and> remove_background_wlines cv_pixels \<lparr>nrows = 3, ncols = 3, rows = [[0, 0, 0], [0, 1000, 0], [0, 0, 0]]\<rparr>
     = Inr \<lparr>nrows = 3, ncols = 3,
            rows = [[Some 0, Some 0, Some 0], [Some 0, Some 1000, Some 0],
                    [Some 0, Some 0, Some 0]]\<rparr>"
  by code_simp

end
